theory Spec2Isabelle
  imports Main "HOL-Library.Char_ord" "HOL-Library.List_Lexorder" "HOL-Library.Multiset"
begin

text \<open>
  A model of the view counters, the rate limiters, the spam filter and the comment
  threads of kon-blog-api, a Cloudflare Worker over a D1 database and a KV namespace.
  The functions of the source are functions on the state of the database and the cache,
  which they take and return; the requests are run one after the other. The model comes
  first, then the properties.
\<close>

section \<open>Strings\<close>

text \<open>
  A JavaScript string is a sequence of UTF-16 code units. The model keeps the code units
  below 256, one \<^typ>\<open>char\<close> each; \<open>length\<close> is the string's \<open>.length\<close>. The order on
  strings (\<open><\<close>, \<open>sort\<close>) is the lexicographic order on code units: the order of
  \<open>Array.prototype.sort\<close> without a comparator and of SQLite's BINARY collation on text.
\<close>

definition is_upper :: "char \<Rightarrow> bool" where
  "is_upper c =
     (let n = (of_char c :: nat)
      in (65 \<le> n \<and> n \<le> 90) \<or> (192 \<le> n \<and> n \<le> 222 \<and> n \<noteq> 215))"

text \<open>Lower case is the code unit plus 32, which sets bit 5 of an upper-case letter.\<close>

definition toLowerCase_char :: "char \<Rightarrow> char" where
  "toLowerCase_char c =
     (if is_upper c
      then Char (digit0 c) (digit1 c) (digit2 c) (digit3 c) (digit4 c) True (digit6 c) (digit7 c)
      else c)"

definition toLowerCase :: "string \<Rightarrow> string" where
  "toLowerCase s = map toLowerCase_char s"

text \<open>White space as \<open>\s\<close> and \<open>trim\<close> see it: tab, LF, VT, FF, CR, space, no-break space.\<close>

definition is_space :: "char \<Rightarrow> bool" where
  "is_space c =
     (let n = (of_char c :: nat) in (9 \<le> n \<and> n \<le> 13) \<or> n = 32 \<or> n = 160)"

text \<open>The characters the regular expression \<open>.\<close> refuses.\<close>

definition line_terminator :: "char \<Rightarrow> bool" where
  "line_terminator c = (let n = (of_char c :: nat) in n = 10 \<or> n = 13)"

definition startsWith :: "string \<Rightarrow> string \<Rightarrow> bool" where
  "startsWith s p = (take (length p) s = p)"

fun includes_str :: "string \<Rightarrow> string \<Rightarrow> bool" where
  "includes_str [] p = (p = [])"
| "includes_str (c # cs) p = (startsWith (c # cs) p \<or> includes_str cs p)"

definition trim :: "string \<Rightarrow> string" where
  "trim s = rev (dropWhile is_space (rev (dropWhile is_space s)))"

fun join :: "string \<Rightarrow> string list \<Rightarrow> string" where
  "join sep [] = []"
| "join sep [x] = x"
| "join sep (x # y # ys) = x @ sep @ join sep (y # ys)"

section \<open>The spam filter (utils/spamfilter.ts)\<close>

definition SPAM_KEYWORDS :: "string list" where
  "SPAM_KEYWORDS =
     [''viagra'', ''casino'', ''poker'', ''lottery'', ''click here'', ''buy now'',
      ''make money'', ''earn extra cash'', ''weight loss'', ''diet pill'', ''credit card'',
      ''free gift'', ''act now'', ''limited time'', ''urgent'', ''winner'',
      ''congratulations'']"

text \<open>
  \<open>http[s]?:\/\/\<close> at the head of a string: the text after it. The two spellings exclude
  each other (the fifth character is \<open>s\<close> or \<open>:\<close>).
\<close>

definition scheme_rest :: "string \<Rightarrow> string option" where
  "scheme_rest s =
     (if startsWith s ''https://'' then Some (drop 8 s)
      else if startsWith s ''http://'' then Some (drop 7 s)
      else None)"

text \<open>\<open>.{0,10}word\<close> at the head of a string: up to ten characters of one line, then the word.\<close>

definition dot_gap :: "string \<Rightarrow> string \<Rightarrow> bool" where
  "dot_gap rest word =
     list_ex (\<lambda>k. list_all (\<lambda>c. \<not> line_terminator c) (take k rest) \<and>
                  startsWith (drop k rest) word) [0..<11]"

definition suspicious_at :: "string \<Rightarrow> bool" where
  "suspicious_at s =
     (startsWith s ''[url='' \<or>
      (case scheme_rest s of
         None \<Rightarrow> False
       | Some rest \<Rightarrow> dot_gap rest ''bit.ly'' \<or> dot_gap rest ''tinyurl''))"

fun match_anywhere :: "(string \<Rightarrow> bool) \<Rightarrow> string \<Rightarrow> bool" where
  "match_anywhere p [] = p []"
| "match_anywhere p (c # cs) = (p (c # cs) \<or> match_anywhere p cs)"

text \<open>
  \<open>SUSPICIOUS_LINKS.test(content)\<close> for
  \<open>/\[url=|http[s]?:\/\/.{0,10}bit\.ly|http[s]?:\/\/.{0,10}tinyurl/i\<close>. The pattern's letters
  are lower case and the flag \<open>i\<close> folds case, so the input is folded first.
\<close>

definition SUSPICIOUS_LINKS :: "string \<Rightarrow> bool" where
  "SUSPICIOUS_LINKS content = match_anywhere suspicious_at (toLowerCase content)"

text \<open>
  \<open>(content.match(/https?:\/\//g) || []).length\<close>: the matches of the pattern start with
  \<open>h\<close> and hold no second \<open>h\<close>, so they never overlap, and their number is the number of
  positions where one starts. The pattern has no flag \<open>i\<close>.
\<close>

fun linkCount :: "string \<Rightarrow> nat" where
  "linkCount [] = 0"
| "linkCount (c # cs) =
     (if startsWith (c # cs) ''http://'' \<or> startsWith (c # cs) ''https://'' then 1 else 0)
     + linkCount cs"

text \<open>\<open>/https?:\/\/\S+/\<close> at the head of a string: the scheme and at least one character
  that is not white space.\<close>

definition link_at :: "string \<Rightarrow> bool" where
  "link_at s =
     (case scheme_rest s of
        None \<Rightarrow> False
      | Some rest \<Rightarrow> (case rest of [] \<Rightarrow> False | c # _ \<Rightarrow> \<not> is_space c))"

text \<open>
  \<open>content.replace(/https?:\/\/\S+/g, "")\<close>. A match runs to the next white space: the
  scheme holds none and \<open>\S+\<close> is greedy. The search goes on behind the match.
\<close>

function strip_links :: "string \<Rightarrow> string" where
  "strip_links [] = []"
| "strip_links (c # cs) =
     (if link_at (c # cs) then strip_links (dropWhile (\<lambda>x. \<not> is_space x) cs)
      else c # strip_links cs)"
  by pat_completeness auto
termination
  by (relation "measure length") (auto simp: less_Suc_eq_le length_dropWhile_le)

datatype spam_reason = SuspectedSpam

record SpamCheckResult =
  isSpam :: bool
  reason :: "spam_reason option"
  score :: nat

definition checkSpam :: "string \<Rightarrow> string \<Rightarrow> SpamCheckResult" where
  "checkSpam content authorName =
     (let score0 = 0;
          lowerContent = toLowerCase content;
          lowerName = toLowerCase authorName;
          score1 = foldl (\<lambda>score keyword.
                            if includes_str lowerContent keyword then score + 2 else score)
                     score0 SPAM_KEYWORDS;
          score2 = (if SUSPICIOUS_LINKS content then score1 + 3 else score1);
          links = linkCount content;
          score3 = (if links > 3 then score2 + links else score2);
          score4 = (if length content < 5 then score3 + 1 else score3);
          score5 = (if length content > 5000 then score4 + 1 else score4);
          textWithoutLinks = trim (strip_links content);
          score6 = (if length textWithoutLinks < 10 \<and> links > 0 then score5 + 3 else score5)
      in if score6 \<ge> 3
         then \<lparr>isSpam = True, reason = Some SuspectedSpam, score = score6\<rparr>
         else \<lparr>isSpam = False, reason = None, score = score6\<rparr>)"

text \<open>
  The score as the specification words it: the last rule measures the text that is left
  when the links are taken out, as it is.
\<close>

definition spec_score :: "string \<Rightarrow> nat" where
  "spec_score content =
     2 * length (filter (includes_str (toLowerCase content)) SPAM_KEYWORDS)
     + (if SUSPICIOUS_LINKS content then 3 else 0)
     + (if linkCount content > 3 then linkCount content else 0)
     + (if length content < 5 \<or> length content > 5000 then 1 else 0)
     + (if length (strip_links content) < 10 \<and> linkCount content > 0 then 3 else 0)"

section \<open>Timestamps\<close>

text \<open>
  The clock is a number of milliseconds since 1970-01-01T00:00:00Z (\<open>Date.now()\<close>);
  SQLite's \<open>'now'\<close> is the same instant in whole seconds. The database stores a timestamp
  as the text SQLite makes of it, and compares timestamps as text. The rendering below
  is the one of the years 0000 to 9999.
\<close>

definition digit_char :: "int \<Rightarrow> char" where
  "digit_char d = ''0123456789'' ! nat d"

definition pad2 :: "int \<Rightarrow> string" where
  "pad2 n = [digit_char (n div 10 mod 10), digit_char (n mod 10)]"

definition pad3 :: "int \<Rightarrow> string" where
  "pad3 n = digit_char (n div 100 mod 10) # pad2 n"

definition pad4 :: "int \<Rightarrow> string" where
  "pad4 n = digit_char (n div 1000 mod 10) # pad3 n"

text \<open>
  The Gregorian date (year, month, day) of a day number, day 0 being 1970-01-01. The days
  are counted from 0000-03-01 in eras of 400 years (146097 days); \<open>doe\<close> is the day of the
  era, \<open>yoe\<close> the year of the era, \<open>doy\<close> the day of the year that starts in March and \<open>mp\<close>
  its month, March being 0.
\<close>

definition year_of_era :: "int \<Rightarrow> int" where
  "year_of_era doe = (doe - doe div 1460 + doe div 36524 - doe div 146096) div 365"

definition day_of_year :: "int \<Rightarrow> int \<Rightarrow> int" where
  "day_of_year doe yoe = doe - (365 * yoe + yoe div 4 - yoe div 100)"

definition month_index :: "int \<Rightarrow> int" where
  "month_index doy = (5 * doy + 2) div 153"

definition civil :: "int \<Rightarrow> int \<Rightarrow> int \<Rightarrow> int \<Rightarrow> int \<times> int \<times> int" where
  "civil era yoe doy mp =
     (yoe + era * 400 + (if mp < 10 then 0 else 1),
      if mp < 10 then mp + 3 else mp - 9,
      doy - (153 * mp + 2) div 5 + 1)"

definition from_era :: "int \<Rightarrow> int \<Rightarrow> int \<times> int \<times> int" where
  "from_era era doe =
     civil era (year_of_era doe) (day_of_year doe (year_of_era doe))
       (month_index (day_of_year doe (year_of_era doe)))"

definition civil_from_days :: "int \<Rightarrow> int \<times> int \<times> int" where
  "civil_from_days z = from_era ((z + 719468) div 146097) ((z + 719468) mod 146097)"

definition date_text :: "int \<Rightarrow> string" where
  "date_text days =
     (case civil_from_days days of (y, m, d) \<Rightarrow> pad4 y @ ''-'' @ pad2 m @ ''-'' @ pad2 d)"

definition time_text :: "int \<Rightarrow> string" where
  "time_text secs =
     pad2 (secs div 3600) @ '':'' @ pad2 (secs div 60 mod 60) @ '':'' @ pad2 (secs mod 60)"

text \<open>\<open>datetime(...)\<close> and \<open>CURRENT_TIMESTAMP\<close> of SQLite: \<open>YYYY-MM-DD HH:MM:SS\<close>.\<close>

definition sqlite_datetime :: "int \<Rightarrow> string" where
  "sqlite_datetime secs = date_text (secs div 86400) @ '' '' @ time_text (secs mod 86400)"

text \<open>\<open>Date.prototype.toISOString\<close>: \<open>YYYY-MM-DDTHH:MM:SS.sssZ\<close>.\<close>

definition toISOString :: "int \<Rightarrow> string" where
  "toISOString ms =
     date_text (ms div 86400000) @ ''T'' @ time_text (ms div 1000 mod 86400)
     @ ''.'' @ pad3 (ms mod 1000) @ ''Z''"

section \<open>The database (migrations) and the cache\<close>

datatype comment_status = pending | approved | spam | rejected

text \<open>A row of \<open>comments\<close>. The columns \<open>id\<close>, \<open>slug\<close>, \<open>content\<close> and \<open>status\<close> carry the
  prefix \<open>c_\<close>.\<close>

record Comment =
  c_id :: nat
  c_slug :: string
  parent_id :: "nat option"
  author_name :: string
  author_email :: "string option"
  author_website :: "string option"
  c_content :: string
  c_status :: comment_status
  ip_hash :: string
  user_agent :: string
  created_at :: string
  updated_at :: string

text \<open>A row of \<open>page_views\<close>, without its key \<open>slug\<close>. SQLite's integers are taken as
  unbounded.\<close>

record page_view =
  view_count :: int
  pv_updated_at :: string

text \<open>
  The D1 database: \<open>page_views\<close> by its unique \<open>slug\<close>, \<open>rate_limits\<close> by its unique \<open>key\<close>
  (the value is \<open>created_at\<close>), the rows of \<open>comments\<close> and the last \<open>id\<close> that
  AUTOINCREMENT gave out. A statement is atomic, and it runs: the database is there, so
  the handlers' answer to a failing database (status 500) is left to the one statement
  that can fail on its data, the INSERT of a comment.
\<close>

record D1Database =
  page_views :: "string \<rightharpoonup> page_view"
  rate_limits :: "string \<rightharpoonup> string"
  comments :: "Comment list"
  comments_seq :: nat

text \<open>
  The KV namespace. The keys of the two families never meet (\<open>views:v1:\<close> and
  \<open>views:batch:v1:\<close> differ in their seventh character), so each family is a map of its
  own. An entry of the first holds the decimal text of a count and is kept as the number
  \<open>parseInt\<close> reads from it; an entry of the second holds JSON text and is kept as the
  object \<open>JSON.parse\<close> makes of it, a text that is empty or does not parse to an object
  being no entry. When the namespace is not \<open>reachable\<close>, \<open>get\<close> and \<open>put\<close> throw. An entry
  stays until it is written again: its expiry (\<open>KV_TTL\<close>, seven days) is not modelled.
\<close>

record KVNamespace =
  single :: "string \<rightharpoonup> int"
  batch :: "string \<rightharpoonup> (string \<rightharpoonup> int)"
  reachable :: bool

record Env =
  kon_blog_db :: D1Database
  VIEW_KV :: KVNamespace

text \<open>What a handler reads from the request beside its parameters: the SHA-256 digest
  \<open>hashString\<close> makes of the caller's address, and the clock.\<close>

record request =
  client_hash :: string
  now_ms :: int

definition sql_now :: "request \<Rightarrow> int" where
  "sql_now req = now_ms req div 1000"

section \<open>Plain objects\<close>

text \<open>
  A \<open>Record<string, number>\<close> of the source is a plain JavaScript object, made by \<open>{}\<close>,
  by a spread or by \<open>JSON.parse\<close>: it has its own properties and, behind them, the
  members of \<open>Object.prototype\<close>. The names of these members:
\<close>

definition Object_prototype :: "string list" where
  "Object_prototype =
     [''constructor'', ''__defineGetter__'', ''__defineSetter__'', ''hasOwnProperty'',
      ''__lookupGetter__'', ''__lookupSetter__'', ''isPrototypeOf'',
      ''propertyIsEnumerable'', ''toString'', ''valueOf'', ''__proto__'',
      ''toLocaleString'']"

text \<open>
  The values that the objects of the batch route hold or yield: a number, or the member
  of \<open>Object.prototype\<close> of the name asked for (a function; for \<open>__proto__\<close> the prototype
  itself). An object is its own properties.
\<close>

datatype js_value = Num int | Inherited

type_synonym js_object = "string \<rightharpoonup> js_value"

text \<open>\<open>obj[k]\<close>: the own property, else the inherited member, else \<open>undefined\<close>, which is
  \<open>None\<close>. No value here is \<open>null\<close>, so \<open>??\<close> passes on exactly at \<open>None\<close>.\<close>

definition js_get :: "js_object \<Rightarrow> string \<Rightarrow> js_value option" where
  "js_get obj k =
     (case obj k of
        Some v \<Rightarrow> Some v
      | None \<Rightarrow> if k \<in> set Object_prototype then Some Inherited else None)"

text \<open>
  \<open>obj[k] = v\<close>: the own property is written, but for \<open>__proto__\<close> on an object that has
  no own property of this name. There the setter of \<open>Object.prototype\<close> runs: it ignores a
  number, and it makes an object the prototype, which here is the prototype the object
  has. Either way the object stays as it is.
\<close>

definition js_set :: "js_object \<Rightarrow> string \<Rightarrow> js_value \<Rightarrow> js_object" where
  "js_set obj k v = (if k = ''__proto__'' \<and> obj k = None then obj else obj(k \<mapsto> v))"

text \<open>The object that \<open>JSON.parse\<close> makes of the text of a mapping: every entry is an own
  property, \<open>__proto__\<close> too.\<close>

definition parsed_object :: "(string \<rightharpoonup> int) \<Rightarrow> js_object" where
  "parsed_object m = (\<lambda>k. map_option Num (m k))"

text \<open>The mapping that a reader finds in the JSON text of an object: \<open>JSON.stringify\<close>
  writes the own properties that are numbers and leaves out those that are functions.\<close>

definition json_numbers :: "js_object \<Rightarrow> (string \<rightharpoonup> int)" where
  "json_numbers obj = (\<lambda>k. case obj k of Some (Num n) \<Rightarrow> Some n | _ \<Rightarrow> None)"

section \<open>PageViewRepository (db/pageviews.ts)\<close>

text \<open>
  \<open>INSERT INTO page_views ... VALUES (?, 1, datetime('now')) ON CONFLICT(slug) DO UPDATE
  SET view_count = view_count + 1, updated_at = datetime('now') RETURNING view_count\<close>:
  one statement, which returns the row it wrote.
\<close>

definition upsert_returning :: "int \<Rightarrow> string \<Rightarrow> D1Database \<Rightarrow> page_view option \<times> D1Database" where
  "upsert_returning now slug db =
     (let row = (case page_views db slug of
                   None \<Rightarrow> \<lparr>view_count = 1, pv_updated_at = sqlite_datetime now\<rparr>
                 | Some r \<Rightarrow> \<lparr>view_count = view_count r + 1,
                              pv_updated_at = sqlite_datetime now\<rparr>)
      in (Some row, db\<lparr>page_views := (page_views db)(slug \<mapsto> row)\<rparr>))"

definition increment :: "int \<Rightarrow> string \<Rightarrow> D1Database \<Rightarrow> int \<times> D1Database" where
  "increment now slug db =
     (case upsert_returning now slug db of
        (result, db') \<Rightarrow> (case result of None \<Rightarrow> 0 | Some r \<Rightarrow> view_count r, db'))"

text \<open>
  Calls of \<open>increment\<close> by any number of callers, as the database runs them. A call is
  one statement and a statement is atomic, so whatever the interleaving of the callers
  the database runs the calls one after the other, in some order: the list.
\<close>

fun increments :: "(int \<times> string) list \<Rightarrow> D1Database \<Rightarrow> D1Database" where
  "increments [] db = db"
| "increments ((now, slug) # calls) db = increments calls (snd (increment now slug db))"

definition get :: "string \<Rightarrow> D1Database \<Rightarrow> int" where
  "get slug db = (case page_views db slug of None \<Rightarrow> 0 | Some r \<Rightarrow> view_count r)"

text \<open>
  \<open>SELECT slug, view_count FROM page_views WHERE slug IN (...)\<close>, and
  \<open>views[row.slug] = row.view_count\<close> for each row. The rows are those of the slugs of the
  list; the model takes them in the order of the list, and a row that it meets twice is
  assigned twice, to no effect.
\<close>

definition getMany :: "string list \<Rightarrow> D1Database \<Rightarrow> js_object" where
  "getMany slugs db =
     (if slugs = [] then Map.empty
      else foldl (\<lambda>views slug.
                    case page_views db slug of
                      None \<Rightarrow> views
                    | Some row \<Rightarrow> js_set views slug (Num (view_count row)))
             Map.empty slugs)"

section \<open>The view routes (routes/pageviews.ts)\<close>

definition KV_PREFIX :: string where
  "KV_PREFIX = ''views:v1:''"

definition KV_BATCH_PREFIX :: string where
  "KV_BATCH_PREFIX = ''views:batch:v1:''"

record RateLimit =
  allowed :: bool
  remaining :: int

text \<open>
  \<open>checkRateLimit(db, ipHash, slug)\<close> of the view routes: a SELECT of the record of the
  key that is younger than five minutes, and, when there is none, an INSERT OR REPLACE
  of the record.
\<close>

definition checkRateLimit_views ::
    "int \<Rightarrow> string \<Rightarrow> string \<Rightarrow> D1Database \<Rightarrow> RateLimit \<times> D1Database" where
  "checkRateLimit_views now ipHash slug db =
     (let key = ipHash @ '':'' @ slug;
          existing = (case rate_limits db key of
                        None \<Rightarrow> None
                      | Some created \<Rightarrow>
                          if created > sqlite_datetime (now - 5 * 60) then Some created
                          else None)
      in case existing of
           Some _ \<Rightarrow> (\<lparr>allowed = False, remaining = 0\<rparr>, db)
         | None \<Rightarrow>
             (\<lparr>allowed = True, remaining = 1\<rparr>,
              db\<lparr>rate_limits := (rate_limits db)(key \<mapsto> sqlite_datetime now)\<rparr>))"

text \<open>A failing \<open>kv.get\<close> is caught and reads as no entry; a failing \<open>kv.put\<close> is caught
  and writes nothing.\<close>

definition getFromKV :: "KVNamespace \<Rightarrow> string \<Rightarrow> int option" where
  "getFromKV kv slug = (if reachable kv then single kv (KV_PREFIX @ slug) else None)"

definition writeToKV :: "KVNamespace \<Rightarrow> string \<Rightarrow> int \<Rightarrow> KVNamespace" where
  "writeToKV kv slug cnt =
     (if reachable kv then kv\<lparr>single := (single kv)(KV_PREFIX @ slug \<mapsto> cnt)\<rparr> else kv)"

text \<open>The loop of \<open>getManyFromKV\<close> over the slugs, one \<open>getFromKV\<close> each. The callbacks
  are taken in the order of the list; only the order of \<open>missing\<close> depends on it.\<close>

definition getEachFromKV :: "KVNamespace \<Rightarrow> string list \<Rightarrow> js_object \<times> string list" where
  "getEachFromKV kv slugs =
     foldl (\<lambda>(found, missing) slug.
              case getFromKV kv slug of
                Some v \<Rightarrow> (js_set found slug (Num v), missing)
              | None \<Rightarrow> (found, missing @ [slug]))
       (Map.empty, []) slugs"

text \<open>The key of the aggregate entry: \<open>slugs.slice().sort().join(',')\<close> behind its prefix.\<close>

definition cacheKey :: "string list \<Rightarrow> string" where
  "cacheKey slugs = KV_BATCH_PREFIX @ join '','' (sort slugs)"

text \<open>\<open>hasAll\<close> is \<open>slugs.every(slug => data[slug] !== undefined)\<close>, a read of the object
  for each slug.\<close>

definition getManyFromKV :: "KVNamespace \<Rightarrow> string list \<Rightarrow> js_object \<times> string list" where
  "getManyFromKV kv slugs =
     (let cached = (if reachable kv then batch kv (cacheKey slugs) else None)
      in case cached of
           None \<Rightarrow> getEachFromKV kv slugs
         | Some entry \<Rightarrow>
             (let data = parsed_object entry;
                  hasAll = list_all (\<lambda>slug. js_get data slug \<noteq> None) slugs
              in if hasAll then (data, []) else getEachFromKV kv slugs))"

text \<open>
  \<open>writeManyToKV(kv, views)\<close>: a \<open>writeToKV\<close> for each of \<open>Object.entries(views)\<close>, the own
  properties of \<open>views\<close>. The keys of \<open>views\<close> are among \<open>slugs\<close>, the list the caller asked
  the database for, and its values are numbers.
\<close>

definition writeManyToKV :: "KVNamespace \<Rightarrow> js_object \<Rightarrow> string list \<Rightarrow> KVNamespace" where
  "writeManyToKV kv views slugs =
     foldl (\<lambda>kv' slug. case views slug of
                          Some (Num cnt) \<Rightarrow> writeToKV kv' slug cnt
                        | _ \<Rightarrow> kv')
       kv slugs"

datatype cache_source = from_kv | from_mixed

text \<open>
  The responses, by route: a refusal \<open>{success: false}\<close> with its status; the answer of
  POST \<open>/:slug\<close> (\<open>view_count\<close>, \<open>cached\<close>); the answer of GET \<open>/:slug\<close> (\<open>slug\<close>,
  \<open>view_count\<close>); the answer of GET \<open>/batch\<close> (\<open>views\<close>, \<open>_cache\<close>); the answer of a
  comment submission (\<open>comment\<close>). Only a refusal has \<open>success: false\<close>. Messages and
  headers are left out.
\<close>

datatype response =
    Failure nat
  | Recorded int bool
  | Viewed string int
  | Batch "string \<rightharpoonup> int" cache_source
  | Created Comment

fun http_status :: "response \<Rightarrow> nat" where
  "http_status (Failure n) = n"
| "http_status (Recorded _ _) = 200"
| "http_status (Viewed _ _) = 200"
| "http_status (Batch _ _) = 200"
| "http_status (Created _) = 201"

text \<open>The \<open>views\<close> of a response, if it has any.\<close>

fun views_of :: "response \<Rightarrow> (string \<rightharpoonup> int) option" where
  "views_of (Batch views _) = Some views"
| "views_of _ = None"


text \<open>\<open>str.split(",")\<close>.\<close>

fun split_comma :: "string \<Rightarrow> string list" where
  "split_comma [] = [[]]"
| "split_comma (c # cs) =
     (if c = CHR '','' then [] # split_comma cs
      else (case split_comma cs of [] \<Rightarrow> [[c]] | x # xs \<Rightarrow> (c # x) # xs))"

text \<open>
  GET \<open>/batch\<close>, from the list of slugs on. \<open>result\<close> starts as the spread of \<open>found\<close>, its own
  properties, and takes \<open>found[slug] ?? dbResults[slug] ?? 0\<close> for each slug; the answer
  carries its JSON text. The write-back is handed to \<open>waitUntil\<close>; the model lets it land
  before the next request.
\<close>

definition getViewsBatch :: "string list \<Rightarrow> Env \<Rightarrow> response \<times> Env" where
  "getViewsBatch slugs env =
     (if length slugs = 0 \<or> length slugs > 100 then (Failure 400, env)
      else
        case getManyFromKV (VIEW_KV env) slugs of
          (found, missing) \<Rightarrow>
            (let dbResults = (if length missing > 0 then getMany missing (kon_blog_db env)
                              else Map.empty);
                 kv' = (if length missing > 0
                        then writeManyToKV (VIEW_KV env) dbResults missing
                        else VIEW_KV env);
                 result = foldl (\<lambda>r slug.
                             js_set r slug
                               (case js_get found slug of
                                  Some v \<Rightarrow> v
                                | None \<Rightarrow> (case js_get dbResults slug of
                                             Some v \<Rightarrow> v
                                           | None \<Rightarrow> Num 0)))
                           found slugs
             in (Batch (json_numbers result)
                   (if length missing = 0 then from_kv else from_mixed),
                 env\<lparr>VIEW_KV := kv'\<rparr>)))"

definition GET_batch :: "string option \<Rightarrow> Env \<Rightarrow> response \<times> Env" where
  "GET_batch slugsParam env =
     (let slugs = (case slugsParam of
                     None \<Rightarrow> []
                   | Some p \<Rightarrow> if p = [] then []
                              else filter (\<lambda>s. s \<noteq> []) (split_comma p))
      in getViewsBatch slugs env)"

text \<open>The test of the slug in POST \<open>/:slug\<close>:
  \<open>!slug || slug.length > 500 || slug.includes("..") || slug.startsWith("/")\<close>.\<close>

definition invalid_slug :: "string \<Rightarrow> bool" where
  "invalid_slug slug =
     (slug = [] \<or> length slug > 500 \<or> includes_str slug ''..'' \<or> startsWith slug ''/'')"

text \<open>POST \<open>/:slug\<close>. The write to the cache is handed to \<open>waitUntil\<close>; the model lets it
  land before the next request.\<close>

definition incrementView :: "request \<Rightarrow> string \<Rightarrow> Env \<Rightarrow> response \<times> Env" where
  "incrementView req slug env =
     (if invalid_slug slug
      then (Failure 400, env)
      else
        case checkRateLimit_views (sql_now req) (client_hash req) slug (kon_blog_db env) of
          (rateLimit, db1) \<Rightarrow>
            if \<not> allowed rateLimit
            then (let cnt = (case getFromKV (VIEW_KV env) slug of
                                 Some n \<Rightarrow> n
                               | None \<Rightarrow> get slug db1)
                  in (Recorded cnt True, env\<lparr>kon_blog_db := db1\<rparr>))
            else (case increment (sql_now req) slug db1 of
                    (cnt, db2) \<Rightarrow>
                      (Recorded cnt False,
                       \<lparr>kon_blog_db = db2, VIEW_KV = writeToKV (VIEW_KV env) slug cnt\<rparr>)))"

text \<open>GET \<open>/:slug\<close>.\<close>

definition getView :: "string \<Rightarrow> Env \<Rightarrow> response \<times> Env" where
  "getView slug env =
     (if slug = [] \<or> length slug > 500 then (Failure 400, env)
      else
        case getFromKV (VIEW_KV env) slug of
          Some cnt \<Rightarrow> (Viewed slug cnt, env)
        | None \<Rightarrow>
            (let cnt = get slug (kon_blog_db env)
             in (Viewed slug cnt, env\<lparr>VIEW_KV := writeToKV (VIEW_KV env) slug cnt\<rparr>)))"

text \<open>A run of POST \<open>/:slug\<close> for one slug, one request after the other.\<close>

fun incrementViews :: "request list \<Rightarrow> string \<Rightarrow> Env \<Rightarrow> Env" where
  "incrementViews [] slug env = env"
| "incrementViews (req # reqs) slug env =
     incrementViews reqs slug (snd (incrementView req slug env))"

text \<open>Every request of the run is let through by the rate limiter, each in the state the
  requests before it left.\<close>

fun all_admitted :: "request list \<Rightarrow> string \<Rightarrow> Env \<Rightarrow> bool" where
  "all_admitted [] slug env = True"
| "all_admitted (req # reqs) slug env =
     (allowed (fst (checkRateLimit_views (sql_now req) (client_hash req) slug (kon_blog_db env)))
      \<and> all_admitted reqs slug (snd (incrementView req slug env)))"

section \<open>The comment limiter (utils/ratelimit.ts)\<close>

definition RATE_LIMIT_WINDOW :: int where
  "RATE_LIMIT_WINDOW = 60 * 1000"

definition RATE_LIMIT_MAX :: int where
  "RATE_LIMIT_MAX = 5"

text \<open>
  \<open>checkRateLimit(db, ipHash)\<close>: \<open>SELECT COUNT(*) FROM comments WHERE ip_hash = ? AND
  created_at > ?\<close>, the second parameter being \<open>windowStart\<close>, the text \<open>toISOString\<close>
  makes of the clock a minute ago. \<open>created_at\<close> holds the text of \<open>CURRENT_TIMESTAMP\<close>,
  and the comparison is the one of texts.
\<close>

definition checkRateLimit :: "int \<Rightarrow> string \<Rightarrow> D1Database \<Rightarrow> RateLimit" where
  "checkRateLimit now ipHash db =
     (let windowStart = toISOString (now - RATE_LIMIT_WINDOW);
          cnt = int (length (filter (\<lambda>r. ip_hash r = ipHash \<and> created_at r > windowStart)
                               (comments db)))
      in \<lparr>allowed = cnt < RATE_LIMIT_MAX, remaining = max 0 (RATE_LIMIT_MAX - cnt)\<rparr>)"

section \<open>CommentRepository (db/comments.ts)\<close>

record CreateCommentInput =
  new_author_name :: string
  new_author_email :: "string option"
  new_author_website :: "string option"
  new_content :: string
  new_parent_id :: "nat option"

text \<open>
  \<open>create\<close>: the INSERT with RETURNING. \<open>x || null\<close> turns an absent, empty or zero \<open>x\<close>
  into NULL. The new \<open>id\<close> follows the last one given out; \<open>status\<close> takes its default
  and both timestamps take \<open>CURRENT_TIMESTAMP\<close>. D1 enforces the foreign key of
  \<open>parent_id\<close>: with no such row the statement fails, which is the result \<open>None\<close>.
\<close>

definition create ::
    "int \<Rightarrow> string \<Rightarrow> CreateCommentInput \<Rightarrow> string \<Rightarrow> string \<Rightarrow> D1Database
     \<Rightarrow> (Comment \<times> D1Database) option" where
  "create now slug input ipHash userAgent db =
     (let parent = (case new_parent_id input of
                      None \<Rightarrow> None
                    | Some p \<Rightarrow> if p = 0 then None else Some p);
          email = (case new_author_email input of
                     None \<Rightarrow> None
                   | Some e \<Rightarrow> if e = [] then None else Some e);
          website = (case new_author_website input of
                       None \<Rightarrow> None
                     | Some u \<Rightarrow> if u = [] then None else Some u);
          row = \<lparr>c_id = comments_seq db + 1, c_slug = slug, parent_id = parent,
                 author_name = new_author_name input, author_email = email,
                 author_website = website, c_content = new_content input,
                 c_status = pending, ip_hash = ipHash, user_agent = userAgent,
                 created_at = sqlite_datetime now, updated_at = sqlite_datetime now\<rparr>
      in case parent of
           None \<Rightarrow>
             Some (row, db\<lparr>comments := comments db @ [row],
                            comments_seq := comments_seq db + 1\<rparr>)
         | Some p \<Rightarrow>
             if list_ex (\<lambda>r. c_id r = p) (comments db)
             then Some (row, db\<lparr>comments := comments db @ [row],
                                 comments_seq := comments_seq db + 1\<rparr>)
             else None)"

text \<open>
  A node of the reply tree as \<open>nestComments\<close> builds it: the comment and its \<open>replies\<close>.
  The nodes are objects that the Map and the arrays share, and \<open>nestComments\<close> appends to
  \<open>replies\<close> after a node has been handed on. The model keeps the nodes in a store under
  the key the Map holds them at, the comment's \<open>id\<close>, and an array of nodes is the list of
  their keys.
\<close>

record CommentWithReplies =
  node_comment :: Comment
  replies :: "nat list"

text \<open>The first loop: a node with no replies for every comment, under its \<open>id\<close>.\<close>

definition buildMap :: "Comment list \<Rightarrow> (nat \<rightharpoonup> CommentWithReplies)" where
  "buildMap cs =
     foldl (\<lambda>m c. m(c_id c \<mapsto> \<lparr>node_comment = c, replies = []\<rparr>)) Map.empty cs"

text \<open>The body of the second loop: \<open>parent_id\<close> is tested for truth (not NULL and not 0)
  and for a node of the Map.\<close>

definition attach ::
    "nat list \<times> (nat \<rightharpoonup> CommentWithReplies) \<Rightarrow> Comment
     \<Rightarrow> nat list \<times> (nat \<rightharpoonup> CommentWithReplies)" where
  "attach acc c =
     (case acc of (rootComments, m) \<Rightarrow>
        (case parent_id c of
           None \<Rightarrow> (rootComments @ [c_id c], m)
         | Some p \<Rightarrow>
             if p = 0 then (rootComments @ [c_id c], m)
             else (case m p of
                     None \<Rightarrow> (rootComments @ [c_id c], m)
                   | Some parent \<Rightarrow>
                       (rootComments,
                        m(p \<mapsto> parent\<lparr>replies := replies parent @ [c_id c]\<rparr>)))))"

definition nestComments :: "Comment list \<Rightarrow> nat list \<times> (nat \<rightharpoonup> CommentWithReplies)" where
  "nestComments cs = foldl attach ([], buildMap cs) cs"

text \<open>The \<open>parent_id\<close> of a comment resolves in a list of comments: it is the \<open>id\<close> of one
  of them.\<close>

definition resolves_in :: "Comment list \<Rightarrow> Comment \<Rightarrow> bool" where
  "resolves_in cs c = (case parent_id c of None \<Rightarrow> False | Some p \<Rightarrow> p \<in> c_id ` set cs)"

text \<open>
  The tree below a node, as the response writes it out. An array of replies that leads
  back to its own node has no such tree; the fuel bounds the depth, and \<open>None\<close> is the
  answer when it runs out.
\<close>

datatype CommentTree = Node Comment "CommentTree list"

fun tree_of :: "nat \<Rightarrow> (nat \<rightharpoonup> CommentWithReplies) \<Rightarrow> nat \<Rightarrow> CommentTree option" where
  "tree_of 0 m i = None"
| "tree_of (Suc k) m i =
     (case m i of
        None \<Rightarrow> None
      | Some node \<Rightarrow>
          (case those (map (tree_of k m) (replies node)) of
             None \<Rightarrow> None
           | Some ts \<Rightarrow> Some (Node (node_comment node) ts)))"

definition trees_of ::
    "nat \<Rightarrow> nat list \<times> (nat \<rightharpoonup> CommentWithReplies) \<Rightarrow> CommentTree list option" where
  "trees_of fuel r = (case r of (roots, m) \<Rightarrow> those (map (tree_of fuel m) roots))"

text \<open>\<open>getBySlug\<close>: the approved comments of the slug by ascending \<open>created_at\<close>, nested.\<close>

definition getBySlug :: "string \<Rightarrow> D1Database \<Rightarrow> nat list \<times> (nat \<rightharpoonup> CommentWithReplies)" where
  "getBySlug slug db =
     nestComments (sort_key created_at
       (filter (\<lambda>r. c_slug r = slug \<and> c_status r = approved) (comments db)))"

section \<open>The comment routes (routes/comments.ts)\<close>

definition replace_all :: "char \<Rightarrow> string \<Rightarrow> string \<Rightarrow> string" where
  "replace_all c r s = concat (map (\<lambda>x. if x = c then r else [x]) s)"

definition sanitizeHtml :: "string \<Rightarrow> string" where
  "sanitizeHtml str =
     replace_all (CHR 0x27) ''&#x27;''
       (replace_all (CHR 0x22) ''&quot;''
         (replace_all CHR ''>'' ''&gt;''
           (replace_all CHR ''<'' ''&lt;''
             (replace_all CHR ''&'' ''&amp;'' str))))"

text \<open>
  POST \<open>/:slug\<close>, behind the validator: the body fits \<open>submitSchema\<close>. A statement that
  fails is caught by the handler, which answers 500.
\<close>

definition submitComment ::
    "request \<Rightarrow> string \<Rightarrow> CreateCommentInput \<Rightarrow> string \<Rightarrow> Env \<Rightarrow> response \<times> Env" where
  "submitComment req slug data userAgent env =
     (let db = kon_blog_db env;
          rateLimit = checkRateLimit (now_ms req) (client_hash req) db
      in if \<not> allowed rateLimit then (Failure 429, env)
         else
           (let spamCheck = checkSpam (new_content data) (new_author_name data);
                input = data\<lparr>new_author_name := sanitizeHtml (new_author_name data),
                             new_content := sanitizeHtml (new_content data)\<rparr>
            in case create (sql_now req) slug input (client_hash req) (take 500 userAgent) db of
                 None \<Rightarrow> (Failure 500, env)
               | Some (comment, db1) \<Rightarrow>
                   if isSpam spamCheck
                   then (Created (comment\<lparr>c_status := spam\<rparr>),
                         env\<lparr>kon_blog_db := db1\<lparr>comments :=
                           map (\<lambda>r. if c_id r = c_id comment
                                    then r\<lparr>c_status := spam,
                                           updated_at := sqlite_datetime (sql_now req)\<rparr>
                                    else r) (comments db1)\<rparr>\<rparr>)
                   else (Created comment, env\<lparr>kon_blog_db := db1\<rparr>)))"

section \<open>Notions of the statements\<close>

text \<open>The aggregate entry of a list of slugs is served: the namespace answers, the entry
  is there and passes the test \<open>hasAll\<close>.\<close>

definition hit :: "KVNamespace \<Rightarrow> string list \<Rightarrow> bool" where
  "hit kv slugs =
     (reachable kv \<and>
      (case batch kv (cacheKey slugs) of
         None \<Rightarrow> False
       | Some entry \<Rightarrow> list_all (\<lambda>slug. js_get (parsed_object entry) slug \<noteq> None) slugs))"

text \<open>
  The views of a list of slugs read key by key. A slug has the single entry of the cache
  where there is one. Without one, a slug that is the name of a member of
  \<open>Object.prototype\<close> has no view, and any other slug has the count of the database. The
  slug \<open>__proto__\<close> has no view in any case.
\<close>

definition miss_views :: "KVNamespace \<Rightarrow> D1Database \<Rightarrow> string list \<Rightarrow> (string \<rightharpoonup> int)" where
  "miss_views kv db slugs =
     (\<lambda>s. if s \<in> set slugs \<and> s \<noteq> ''__proto__''
          then (case getFromKV kv s of
                  Some v \<Rightarrow> Some v
                | None \<Rightarrow> if s \<in> set Object_prototype then None else Some (get s db))
          else None)"

text \<open>The environment without the aggregate entry of a list of slugs.\<close>

definition drop_aggregate :: "string list \<Rightarrow> Env \<Rightarrow> Env" where
  "drop_aggregate slugs env =
     env\<lparr>VIEW_KV := (VIEW_KV env)\<lparr>batch := (batch (VIEW_KV env))(cacheKey slugs := None)\<rparr>\<rparr>"

text \<open>The test of the second loop of \<open>nestComments\<close>, for the keys of the Map: the
  \<open>parent_id\<close> of the comment is true (not NULL and not 0) and is one of the keys.\<close>

definition truthy_parent :: "nat set \<Rightarrow> Comment \<Rightarrow> bool" where
  "truthy_parent ids c =
     (case parent_id c of None \<Rightarrow> False | Some p \<Rightarrow> p \<noteq> 0 \<and> p \<in> ids)"

section \<open>Sample states\<close>

definition empty_env :: Env where
  "empty_env =
     \<lparr>kon_blog_db = \<lparr>page_views = Map.empty, rate_limits = Map.empty, comments = [],
                     comments_seq = 0\<rparr>,
      VIEW_KV = \<lparr>single = Map.empty, batch = Map.empty, reachable = True\<rparr>\<rparr>"

definition visit :: "string \<Rightarrow> int \<Rightarrow> request" where
  "visit h t = \<lparr>client_hash = h, now_ms = t\<rparr>"

definition sample_comment :: Comment where
  "sample_comment =
     \<lparr>c_id = 1, c_slug = ''post'', parent_id = None, author_name = ''ann'',
      author_email = None, author_website = None, c_content = ''nice post, thanks'',
      c_status = approved, ip_hash = ''h'', user_agent = ''ua'',
      created_at = ''2026-02-13 09:00:00'', updated_at = ''2026-02-13 09:00:00''\<rparr>"

text \<open>Five comments of the identity \<open>h\<close>, written one, two, ... five seconds after the
  second \<open>t\<close>.\<close>

definition five_comments :: "int \<Rightarrow> Env" where
  "five_comments t =
     empty_env\<lparr>kon_blog_db := (kon_blog_db empty_env)
       \<lparr>comments := map (\<lambda>k. sample_comment\<lparr>c_id := nat k,
                                 created_at := sqlite_datetime (t + k),
                                 updated_at := sqlite_datetime (t + k)\<rparr>) [1, 2, 3, 4, 5],
        comments_seq := 5\<rparr>\<rparr>"

definition sample_input :: CreateCommentInput where
  "sample_input =
     \<lparr>new_author_name = ''ann'', new_author_email = None, new_author_website = None,
      new_content = ''one more comment'', new_parent_id = None\<rparr>"

text \<open>A database with 7 views of \<open>a\<close> and none of \<open>b\<close>; the cache is empty.\<close>

definition seven_views :: Env where
  "seven_views =
     empty_env\<lparr>kon_blog_db := (kon_blog_db empty_env)
       \<lparr>page_views := [''a'' \<mapsto> \<lparr>view_count = 7, pv_updated_at = ''2026-02-13 09:00:00''\<rparr>]\<rparr>\<rparr>"

text \<open>A database with 3 views of \<open>constructor\<close> and none of \<open>a\<close>; the cache is empty.\<close>

definition three_views :: Env where
  "three_views =
     empty_env\<lparr>kon_blog_db := (kon_blog_db empty_env)
       \<lparr>page_views := [''constructor'' \<mapsto>
                         \<lparr>view_count = 3, pv_updated_at = ''2026-02-13 09:00:00''\<rparr>]\<rparr>\<rparr>"


text \<open>A thread: 5, its reply 7, the reply 8 to 7, and 9, whose parent 4 is not there.\<close>

definition sample_thread :: "Comment list" where
  "sample_thread =
     [sample_comment\<lparr>c_id := 5\<rparr>,
      sample_comment\<lparr>c_id := 7, parent_id := Some 5\<rparr>,
      sample_comment\<lparr>c_id := 8, parent_id := Some 7\<rparr>,
      sample_comment\<lparr>c_id := 9, parent_id := Some 4\<rparr>]"

section \<open>Properties of the spam filter\<close>

lemma keyword_loop:
  "foldl (\<lambda>score keyword. if P keyword then score + 2 else score) a ks
     = a + 2 * length (filter P ks)"
  by (induction ks arbitrary: a) auto

text \<open>
  C5, as the code has it. For every content and author name the score is the sum of: 2 for
  each keyword of the denylist that the lower-cased content includes; 3 if the content
  matches the suspicious-link pattern; the number of links if it is above 3; 1 if the
  content has fewer than 5 or more than 5000 characters; 3 if the content has a link and
  the text left after the links are taken out and the white space at both ends is
  trimmed has fewer than 10 characters. The result is spam exactly when the score is at
  least 3.
\<close>

theorem checkSpam_score:
  "score (checkSpam content authorName) =
     2 * length (filter (includes_str (toLowerCase content)) SPAM_KEYWORDS)
     + (if SUSPICIOUS_LINKS content then 3 else 0)
     + (if linkCount content > 3 then linkCount content else 0)
     + (if length content < 5 \<or> length content > 5000 then 1 else 0)
     + (if length (trim (strip_links content)) < 10 \<and> linkCount content > 0 then 3 else 0)
   \<and> isSpam (checkSpam content authorName) = (score (checkSpam content authorName) \<ge> 3)"
  by (simp add: checkSpam_def Let_def keyword_loop)

text \<open>
  The rule at work on the first example of the specification: two keywords and four
  links give 8.
\<close>

theorem checkSpam_score_witness:
  "score (checkSpam ''buy now viagra http://a http://b http://c http://d'' ''eve'') = 8
   \<and> isSpam (checkSpam ''buy now viagra http://a http://b http://c http://d'' ''eve'')"
proof -
  have "2 * length (filter (includes_str
            (toLowerCase ''buy now viagra http://a http://b http://c http://d''))
          SPAM_KEYWORDS)
        + (if SUSPICIOUS_LINKS ''buy now viagra http://a http://b http://c http://d''
           then 3 else 0)
        + (if linkCount ''buy now viagra http://a http://b http://c http://d'' > 3
           then linkCount ''buy now viagra http://a http://b http://c http://d'' else 0)
        + (if length ''buy now viagra http://a http://b http://c http://d'' < 5
              \<or> length ''buy now viagra http://a http://b http://c http://d'' > 5000
           then 1 else 0)
        + (if length (trim (strip_links
                ''buy now viagra http://a http://b http://c http://d'')) < 10
              \<and> linkCount ''buy now viagra http://a http://b http://c http://d'' > 0
           then 3 else 0) = (8::nat)"
    by code_simp
  with checkSpam_score [of "''buy now viagra http://a http://b http://c http://d''" "''eve''"]
  show ?thesis by simp
qed

text \<open>
  C5 as the specification words it fails on a link behind ten spaces: the text left
  without the link is ten characters long, so the worded rule adds nothing, while the
  code trims it to the empty string, adds 3 and reports spam.
\<close>

theorem checkSpam_score_counterexample:
  "score (checkSpam ''          http://a.com'' ''bob'') = 3
   \<and> isSpam (checkSpam ''          http://a.com'' ''bob'')
   \<and> spec_score ''          http://a.com'' = 0"
  by code_simp

text \<open>
  C10. The result of the spam check does not depend on the author name: any two names
  give the same score, verdict and reason for the same content.
\<close>

theorem checkSpam_ignores_authorName:
  "checkSpam content a1 = checkSpam content a2"
  by (simp add: checkSpam_def Let_def)

section \<open>Properties of the counter store\<close>

lemma increment_result:
  "increment now slug db =
     (get slug db + 1,
      db\<lparr>page_views := (page_views db)(slug \<mapsto>
            \<lparr>view_count = get slug db + 1, pv_updated_at = sqlite_datetime now\<rparr>)\<rparr>)"
  by (simp add: increment_def upsert_returning_def get_def Let_def split: option.splits)

lemma get_increment:
  "get s (snd (increment now slug db)) = (if s = slug then get s db + 1 else get s db)"
  by (simp add: increment_result) (simp add: get_def)

lemma get_increments:
  "get slug (increments calls db)
     = get slug db + int (length (filter (\<lambda>(t, s). s = slug) calls))"
  by (induction calls db rule: increments.induct) (auto simp: get_increment)

text \<open>
  C1. \<open>increment\<close> is one statement of the database. Where the slug has no counter it
  writes the counter 1, where it has one it writes the counter plus 1, and it returns
  the count it wrote, which is the count a read finds afterwards. Since the calls of any
  number of callers reach the database as statements, one after the other, the count of
  a slug after any such run is its count before plus the number of calls for the slug:
  no call is lost.
\<close>

theorem increment_atomic_upsert:
  "increment now slug db =
     (case page_views db slug of
        None \<Rightarrow>
          (1, db\<lparr>page_views := (page_views db)(slug \<mapsto>
                     \<lparr>view_count = 1, pv_updated_at = sqlite_datetime now\<rparr>)\<rparr>)
      | Some r \<Rightarrow>
          (view_count r + 1,
           db\<lparr>page_views := (page_views db)(slug \<mapsto>
                 \<lparr>view_count = view_count r + 1, pv_updated_at = sqlite_datetime now\<rparr>)\<rparr>))
   \<and> get slug (snd (increment now slug db)) = fst (increment now slug db)
   \<and> get slug (increments calls db)
       = get slug db + int (length (filter (\<lambda>(t, s). s = slug) calls))"
proof (intro conjI)
  show "increment now slug db =
     (case page_views db slug of
        None \<Rightarrow>
          (1, db\<lparr>page_views := (page_views db)(slug \<mapsto>
                     \<lparr>view_count = 1, pv_updated_at = sqlite_datetime now\<rparr>)\<rparr>)
      | Some r \<Rightarrow>
          (view_count r + 1,
           db\<lparr>page_views := (page_views db)(slug \<mapsto>
                 \<lparr>view_count = view_count r + 1, pv_updated_at = sqlite_datetime now\<rparr>)\<rparr>))"
    by (simp add: increment_result get_def split: option.splits)
  show "get slug (snd (increment now slug db)) = fst (increment now slug db)"
    by (simp add: get_increment) (simp add: increment_result)
  show "get slug (increments calls db)
       = get slug db + int (length (filter (\<lambda>(t, s). s = slug) calls))"
    by (rule get_increments)
qed

text \<open>On the samples: the first view of \<open>a\<close> counts 1, the eighth 8, and two calls for
  \<open>a\<close> around one for \<open>b\<close> take \<open>a\<close> from 7 to 9.\<close>

theorem increment_atomic_upsert_witness:
  "fst (increment 1770976800 ''a'' (kon_blog_db empty_env)) = 1
   \<and> fst (increment 1770976800 ''a'' (kon_blog_db seven_views)) = 8
   \<and> get ''a'' (increments [(1770976800, ''a''), (1770976801, ''b''), (1770976802, ''a'')]
                  (kon_blog_db seven_views)) = 9"
proof -
  note fresh = increment_atomic_upsert [of 1770976800 "''a''" "kon_blog_db empty_env" "[]"]
  note known = increment_atomic_upsert [of 1770976800 "''a''" "kon_blog_db seven_views"
      "[(1770976800, ''a''), (1770976801, ''b''), (1770976802, ''a'')]"]
  have none: "page_views (kon_blog_db empty_env) ''a'' = None"
    by (simp add: empty_env_def)
  have seven: "page_views (kon_blog_db seven_views) ''a''
                 = Some \<lparr>view_count = 7, pv_updated_at = ''2026-02-13 09:00:00''\<rparr>"
    by (simp add: seven_views_def)
  have g7: "get ''a'' (kon_blog_db seven_views) = 7"
    by (simp add: get_def seven)
  from fresh have "fst (increment 1770976800 ''a'' (kon_blog_db empty_env)) = 1"
    by (simp add: none)
  moreover from known have "fst (increment 1770976800 ''a'' (kon_blog_db seven_views)) = 8"
    by (simp add: seven)
  moreover from known
  have "get ''a'' (increments [(1770976800, ''a''), (1770976801, ''b''), (1770976802, ''a'')]
                     (kon_blog_db seven_views)) = 9"
    by (simp only: g7) simp
  ultimately show ?thesis by simp
qed

section \<open>Properties of the view routes\<close>

lemma checkRateLimit_views_page_views:
  "page_views (snd (checkRateLimit_views now ipHash slug db)) = page_views db"
  by (auto simp: checkRateLimit_views_def Let_def split: option.splits)

lemma get_after_check:
  "get s (snd (checkRateLimit_views now ipHash slug db)) = get s db"
  by (simp add: get_def checkRateLimit_views_page_views)


lemma reachable_writeToKV: "reachable (writeToKV kv slug c) = reachable kv"
  by (simp add: writeToKV_def)

lemma getFromKV_writeToKV:
  "getFromKV (writeToKV kv slug c) s
     = (if reachable kv \<and> s = slug then Some c else getFromKV kv s)"
  by (simp add: getFromKV_def writeToKV_def)


lemma incrementView_admitted:
  assumes "\<not> invalid_slug slug"
      and "allowed (fst (checkRateLimit_views (sql_now req) (client_hash req) slug
                          (kon_blog_db env)))"
  shows "get slug (kon_blog_db (snd (incrementView req slug env)))
           = get slug (kon_blog_db env) + 1"
    and "VIEW_KV (snd (incrementView req slug env))
           = writeToKV (VIEW_KV env) slug (get slug (kon_blog_db env) + 1)"
    and "fst (incrementView req slug env) = Recorded (get slug (kon_blog_db env) + 1) False"
proof -
  obtain rl db1 where
    c: "checkRateLimit_views (sql_now req) (client_hash req) slug (kon_blog_db env) = (rl, db1)"
    by (cases "checkRateLimit_views (sql_now req) (client_hash req) slug (kon_blog_db env)")
  have g: "get slug db1 = get slug (kon_blog_db env)"
    using get_after_check[of slug "sql_now req" "client_hash req" slug "kon_blog_db env"] c
    by simp
  have a: "allowed rl" using assms(2) c by simp
  have iv: "incrementView req slug env =
      (Recorded (get slug db1 + 1) False,
       \<lparr>kon_blog_db = snd (increment (sql_now req) slug db1),
        VIEW_KV = writeToKV (VIEW_KV env) slug (get slug db1 + 1)\<rparr>)"
    using assms(1) a c by (simp add: incrementView_def increment_result)
  show "get slug (kon_blog_db (snd (incrementView req slug env)))
          = get slug (kon_blog_db env) + 1"
    by (simp add: iv get_increment g)
  show "VIEW_KV (snd (incrementView req slug env))
          = writeToKV (VIEW_KV env) slug (get slug (kon_blog_db env) + 1)"
    by (simp add: iv g)
  show "fst (incrementView req slug env) = Recorded (get slug (kon_blog_db env) + 1) False"
    by (simp add: iv g)
qed

text \<open>A run of admitted requests: the counter grows by their number, and the cache, where
  it answers, holds the counter after the first of them.\<close>

lemma incrementViews_run:
  assumes "\<not> invalid_slug slug" "all_admitted reqs slug env"
  shows "get slug (kon_blog_db (incrementViews reqs slug env))
           = get slug (kon_blog_db env) + int (length reqs)
       \<and> getFromKV (VIEW_KV (incrementViews reqs slug env)) slug
           = (if reqs = [] then getFromKV (VIEW_KV env) slug
              else if reachable (VIEW_KV env)
                   then Some (get slug (kon_blog_db env) + int (length reqs)) else None)
       \<and> reachable (VIEW_KV (incrementViews reqs slug env)) = reachable (VIEW_KV env)"
  using assms(2)
proof (induction reqs arbitrary: env)
  case Nil
  then show ?case by simp
next
  case (Cons req reqs)
  let ?env1 = "snd (incrementView req slug env)"
  from Cons.prems
  have a: "allowed (fst (checkRateLimit_views (sql_now req) (client_hash req) slug
                          (kon_blog_db env)))"
    and rest: "all_admitted reqs slug ?env1" by auto
  note s = incrementView_admitted[OF assms(1) a]
  note ih = Cons.IH[OF rest]
  show ?case
    using ih by (auto simp: s getFromKV_writeToKV reachable_writeToKV) (auto simp: getFromKV_def)
qed

text \<open>
  C2, as the code has it. For a slug that POST \<open>/:slug\<close> accepts, with no counter and no
  cache entry at the start, a run of N requests that the rate limiter lets through, one
  after the other, makes GET \<open>/:slug\<close> answer N.
\<close>

theorem incrementView_n_times:
  assumes "\<not> invalid_slug slug"
      and "page_views (kon_blog_db env) slug = None"
      and "single (VIEW_KV env) (KV_PREFIX @ slug) = None"
      and "all_admitted reqs slug env"
  shows "fst (getView slug (incrementViews reqs slug env)) = Viewed slug (int (length reqs))"
proof -
  have g0: "get slug (kon_blog_db env) = 0" using assms(2) by (simp add: get_def)
  have k0: "getFromKV (VIEW_KV env) slug = None" using assms(3) by (simp add: getFromKV_def)
  note r = incrementViews_run[OF assms(1) assms(4)]
  from assms(1) have v: "slug \<noteq> []" "\<not> length slug > 500" by (auto simp: invalid_slug_def)
  show ?thesis
    using r v g0 k0 by (auto simp: getView_def Let_def split: option.splits if_splits)
qed

lemmas time_defs = sqlite_datetime_def toISOString_def date_text_def time_text_def
  civil_from_days_def from_era_def civil_def year_of_era_def day_of_year_def month_index_def
  pad2_def pad3_def pad4_def digit_char_def

lemmas view_defs = getView_def incrementView_def checkRateLimit_views_def increment_def
  upsert_returning_def get_def getFromKV_def writeToKV_def empty_env_def visit_def sql_now_def
  invalid_slug_def startsWith_def KV_PREFIX_def

text \<open>The instants of the samples, as SQLite and JavaScript write them.\<close>

lemma stamps_morning:
  "sqlite_datetime 1770976560 = ''2026-02-13 09:56:00''"
  "sqlite_datetime 1770976800 = ''2026-02-13 10:00:00''"
  "sqlite_datetime 1770976801 = ''2026-02-13 10:00:01''"
  "sqlite_datetime 1770976802 = ''2026-02-13 10:00:02''"
  "sqlite_datetime 1770976803 = ''2026-02-13 10:00:03''"
  "sqlite_datetime 1770976804 = ''2026-02-13 10:00:04''"
  "sqlite_datetime 1770976805 = ''2026-02-13 10:00:05''"
  "toISOString 1770976770000 = ''2026-02-13T09:59:30.000Z''"
  by (simp_all add: time_defs)


text \<open>Two visitors, a minute apart: both are counted.\<close>

theorem incrementView_n_times_witness:
  "fst (getView ''a'' (incrementViews [visit ''h1'' 1770976800000, visit ''h2'' 1770976860000]
                         ''a'' empty_env)) = Viewed ''a'' 2"
proof -
  have 1: "\<not> invalid_slug ''a''"
    by (simp add: invalid_slug_def startsWith_def)
  have 2: "page_views (kon_blog_db empty_env) ''a'' = None"
    by (simp add: empty_env_def)
  have 3: "single (VIEW_KV empty_env) (KV_PREFIX @ ''a'') = None"
    by (simp add: empty_env_def)
  have 4: "all_admitted [visit ''h1'' 1770976800000, visit ''h2'' 1770976860000] ''a'' empty_env"
    by (simp add: view_defs Let_def)
  show ?thesis
    using incrementView_n_times [OF 1 2 3 4] by simp
qed

text \<open>
  C2 as the specification words it fails for the second request of one visitor within
  five minutes: from no counter for \<open>a\<close>, two requests of the identity \<open>h\<close> a minute apart
  leave the count at 1.
\<close>

theorem incrementView_n_times_counterexample:
  "page_views (kon_blog_db empty_env) ''a'' = None
   \<and> length [visit ''h'' 1770976800000, visit ''h'' 1770976860000] = 2
   \<and> fst (getView ''a'' (incrementViews [visit ''h'' 1770976800000, visit ''h'' 1770976860000]
                           ''a'' empty_env)) = Viewed ''a'' 1"
  by (simp add: view_defs stamps_morning Let_def)

section \<open>Properties of refused requests\<close>




lemma five_comments_morning:
  "comments (kon_blog_db (five_comments 1770976800)) =
     map (\<lambda>(k, t). sample_comment\<lparr>c_id := k, created_at := t, updated_at := t\<rparr>)
       [(1, ''2026-02-13 10:00:01''), (2, ''2026-02-13 10:00:02''),
        (3, ''2026-02-13 10:00:03''), (4, ''2026-02-13 10:00:04''),
        (5, ''2026-02-13 10:00:05'')]"
  by (simp add: five_comments_def empty_env_def stamps_morning)




text \<open>
  The two renderings of one date differ in their eleventh character, a space for SQLite
  and a \<open>T\<close> for JavaScript, and the space is the lower one. So a comment written on the
  UTC date of \<open>windowStart\<close> is never above it, at whatever time of the day, and a list of
  such comments counts as empty.
\<close>

lemma space_below_T: "\<not> d @ ''T'' @ u < d @ '' '' @ t"
  by (induction d) simp_all

lemma same_day_not_above:
  "secs div 86400 = ms div 86400000 \<Longrightarrow> \<not> sqlite_datetime secs > toISOString ms"
  using space_below_T [of "date_text (ms div 86400000)"]
  by (simp add: sqlite_datetime_def toISOString_def)

lemma same_day_comments_uncounted:
  assumes "list_all (\<lambda>r. \<exists>secs. created_at r = sqlite_datetime secs
                        \<and> secs div 86400 = (now - RATE_LIMIT_WINDOW) div 86400000)
             (comments db)"
  shows "checkRateLimit now ipHash db = \<lparr>allowed = True, remaining = RATE_LIMIT_MAX\<rparr>"
proof -
  have "\<not> created_at r > toISOString (now - RATE_LIMIT_WINDOW)"
    if "r \<in> set (comments db)" for r
  proof -
    from assms that obtain secs where "created_at r = sqlite_datetime secs"
      and "secs div 86400 = (now - RATE_LIMIT_WINDOW) div 86400000"
      by (auto simp: list_all_iff)
    then show ?thesis using same_day_not_above by simp
  qed
  then have "filter (\<lambda>r. ip_hash r = ipHash
                     \<and> created_at r > toISOString (now - RATE_LIMIT_WINDOW)) (comments db) = []"
    by (auto simp: filter_empty_conv)
  then show ?thesis
    by (simp add: checkRateLimit_def RATE_LIMIT_MAX_def)
qed

text \<open>
  C4 fails on the code. The identity \<open>h\<close> has written five comments between 10:00:01 and
  10:00:05; at 10:00:30 of the same day the limiter counts none of them, since every
  \<open>created_at\<close> (\<open>2026-02-13 10:00:0x\<close>) is below \<open>windowStart\<close>
  (\<open>2026-02-13T09:59:30.000Z\<close>) as a text: the space is below the \<open>T\<close>. The sixth
  comment is let through and answered with 201.
\<close>

theorem checkRateLimit_sixth_comment:
  "map created_at (comments (kon_blog_db (five_comments 1770976800)))
     = [''2026-02-13 10:00:01'', ''2026-02-13 10:00:02'', ''2026-02-13 10:00:03'',
        ''2026-02-13 10:00:04'', ''2026-02-13 10:00:05'']
   \<and> map ip_hash (comments (kon_blog_db (five_comments 1770976800)))
     = [''h'', ''h'', ''h'', ''h'', ''h'']
   \<and> toISOString (1770976830000 - RATE_LIMIT_WINDOW) = ''2026-02-13T09:59:30.000Z''
   \<and> checkRateLimit 1770976830000 ''h'' (kon_blog_db (five_comments 1770976800))
     = \<lparr>allowed = True, remaining = 5\<rparr>
   \<and> http_status (fst (submitComment (visit ''h'' 1770976830000) ''post'' sample_input ''ua''
                         (five_comments 1770976800))) = 201"
proof -
  have l: "checkRateLimit 1770976830000 ''h'' (kon_blog_db (five_comments 1770976800))
             = \<lparr>allowed = True, remaining = 5\<rparr>"
    by (simp add: checkRateLimit_def five_comments_morning RATE_LIMIT_WINDOW_def
          RATE_LIMIT_MAX_def stamps_morning sample_comment_def)
  have s: "http_status (fst (submitComment (visit ''h'' 1770976830000) ''post'' sample_input
                               ''ua'' (five_comments 1770976800))) = 201"
    by (simp add: submitComment_def visit_def l create_def sample_input_def Let_def
          split: option.splits)
  show ?thesis
    using l s
    by (simp add: five_comments_morning sample_comment_def RATE_LIMIT_WINDOW_def stamps_morning)
qed

section \<open>Properties of the batch route\<close>

lemma proto_member: "''__proto__'' \<in> set Object_prototype"
  by (simp add: Object_prototype_def)

lemma js_set_apply:
  "js_set obj k v s
     = (if s = k \<and> \<not> (k = ''__proto__'' \<and> obj k = None) then Some v else obj s)"
  by (auto simp: js_set_def)

lemma js_set_proto_none:
  "js_set obj k v ''__proto__'' = None \<longleftrightarrow> obj ''__proto__'' = None"
  by (auto simp: js_set_def)

lemma getEach_gen:
  assumes "found ''__proto__'' = None"
  shows "foldl (\<lambda>(found, missing) slug.
              case getFromKV kv slug of
                Some v \<Rightarrow> (js_set found slug (Num v), missing)
              | None \<Rightarrow> (found, missing @ [slug])) (found, missing) slugs
   = (\<lambda>s. if s \<in> set slugs \<and> s \<noteq> ''__proto__'' \<and> getFromKV kv s \<noteq> None
           then map_option Num (getFromKV kv s) else found s,
      missing @ filter (\<lambda>s. getFromKV kv s = None) slugs)"
    (is "foldl ?step (found, missing) slugs = ?closed found missing slugs")
  using assms
proof (induction slugs arbitrary: found missing)
  case Nil
  then show ?case by simp
next
  case (Cons a slugs)
  show ?case
  proof (cases "getFromKV kv a")
    case None
    have "foldl ?step (found, missing) (a # slugs) = foldl ?step (found, missing @ [a]) slugs"
      using None by simp
    also have "\<dots> = ?closed found (missing @ [a]) slugs"
      using Cons.prems by (rule Cons.IH)
    also have "\<dots> = ?closed found missing (a # slugs)"
      using None by (auto simp: fun_eq_iff)
    finally show ?thesis .
  next
    case (Some v)
    have p: "js_set found a (Num v) ''__proto__'' = None"
      using Cons.prems by (simp add: js_set_proto_none)
    have "foldl ?step (found, missing) (a # slugs)
            = foldl ?step (js_set found a (Num v), missing) slugs"
      using Some by simp
    also have "\<dots> = ?closed (js_set found a (Num v)) missing slugs"
      using p by (rule Cons.IH)
    also have "\<dots> = ?closed found missing (a # slugs)"
      using Some Cons.prems by (auto simp: fun_eq_iff js_set_apply)
    finally show ?thesis .
  qed
qed

text \<open>The loop over the slugs finds the single entries there are, but not one of
  \<open>__proto__\<close>, and misses the slugs without an entry.\<close>

lemma getEachFromKV_eq:
  "getEachFromKV kv slugs
   = (\<lambda>s. if s \<in> set slugs \<and> s \<noteq> ''__proto__'' then map_option Num (getFromKV kv s)
           else None,
      filter (\<lambda>s. getFromKV kv s = None) slugs)"
  unfolding getEachFromKV_def
  by (subst getEach_gen) (auto simp: fun_eq_iff)

lemma getMany_gen:
  assumes "views ''__proto__'' = None"
  shows "foldl (\<lambda>views slug.
                  case page_views db slug of
                    None \<Rightarrow> views
                  | Some row \<Rightarrow> js_set views slug (Num (view_count row))) views slugs
   = (\<lambda>s. if s \<in> set slugs \<and> s \<noteq> ''__proto__'' \<and> page_views db s \<noteq> None
           then map_option (\<lambda>row. Num (view_count row)) (page_views db s) else views s)"
    (is "foldl ?step views slugs = ?closed views slugs")
  using assms
proof (induction slugs arbitrary: views)
  case Nil
  then show ?case by simp
next
  case (Cons a slugs)
  show ?case
  proof (cases "page_views db a")
    case None
    have "foldl ?step views (a # slugs) = foldl ?step views slugs"
      using None by simp
    also have "\<dots> = ?closed views slugs"
      using Cons.prems by (rule Cons.IH)
    also have "\<dots> = ?closed views (a # slugs)"
      using None by (auto simp: fun_eq_iff)
    finally show ?thesis .
  next
    case (Some row)
    have p: "js_set views a (Num (view_count row)) ''__proto__'' = None"
      using Cons.prems by (simp add: js_set_proto_none)
    have "foldl ?step views (a # slugs)
            = foldl ?step (js_set views a (Num (view_count row))) slugs"
      using Some by simp
    also have "\<dots> = ?closed (js_set views a (Num (view_count row))) slugs"
      using p by (rule Cons.IH)
    also have "\<dots> = ?closed views (a # slugs)"
      using Some Cons.prems by (auto simp: fun_eq_iff js_set_apply)
    finally show ?thesis .
  qed
qed

text \<open>The object of the database has the counts of the slugs that have a row, but not
  one of \<open>__proto__\<close>.\<close>

lemma getMany_eq:
  "getMany slugs db
   = (\<lambda>s. if s \<in> set slugs \<and> s \<noteq> ''__proto__''
           then map_option (\<lambda>row. Num (view_count row)) (page_views db s) else None)"
  unfolding getMany_def
  by (cases "slugs = []") (simp, subst getMany_gen, auto simp: fun_eq_iff)

lemma result_fold:
  "foldl (\<lambda>r slug. js_set r slug (g slug)) r0 slugs
     = (\<lambda>s. if s \<in> set slugs \<and> (s \<noteq> ''__proto__'' \<or> r0 ''__proto__'' \<noteq> None)
             then Some (g s) else r0 s)"
    (is "foldl ?step r0 slugs = ?closed r0 slugs")
proof (induction slugs arbitrary: r0)
  case Nil
  then show ?case by simp
next
  case (Cons a slugs)
  have "foldl ?step r0 (a # slugs) = foldl ?step (js_set r0 a (g a)) slugs"
    by simp
  also have "\<dots> = ?closed (js_set r0 a (g a)) slugs"
    by (rule Cons.IH)
  also have "\<dots> = ?closed r0 (a # slugs)"
    by (auto simp: fun_eq_iff js_set_apply)
  finally show ?case .
qed

lemma reachable_writeMany: "reachable (writeManyToKV kv views slugs) = reachable kv"
  unfolding writeManyToKV_def
  by (induction slugs arbitrary: kv)
     (auto simp: writeToKV_def split: option.splits js_value.splits)

lemma batch_writeMany: "batch (writeManyToKV kv views slugs) = batch kv"
  unfolding writeManyToKV_def
  by (induction slugs arbitrary: kv)
     (auto simp: writeToKV_def split: option.splits js_value.splits)

lemma getFromKV_writeMany:
  "getFromKV (writeManyToKV kv views slugs) s
     = (if reachable kv \<and> s \<in> set slugs
        then (case views s of Some (Num c) \<Rightarrow> Some c | _ \<Rightarrow> getFromKV kv s)
        else getFromKV kv s)"
  unfolding writeManyToKV_def
proof (induction slugs arbitrary: kv)
  case Nil
  then show ?case by simp
next
  case (Cons a slugs)
  show ?case
    by (auto simp: Cons.IH getFromKV_writeToKV reachable_writeToKV
             split: option.splits js_value.splits)
qed

lemma getManyFromKV_miss:
  "\<not> hit kv slugs \<Longrightarrow> getManyFromKV kv slugs = getEachFromKV kv slugs"
  by (auto simp: hit_def getManyFromKV_def Let_def split: option.splits)

lemma getManyFromKV_hit:
  "hit kv slugs \<Longrightarrow>
   getManyFromKV kv slugs = (parsed_object (the (batch kv (cacheKey slugs))), [])"
  by (auto simp: hit_def getManyFromKV_def Let_def split: option.splits)

text \<open>A request that the aggregate entry does not serve: the views are read key by key,
  and the counts that came from the database are written to their single keys.\<close>

lemma getViewsBatch_miss:
  assumes "\<not> hit (VIEW_KV env) slugs" "slugs \<noteq> []" "length slugs \<le> 100"
  shows "views_of (fst (getViewsBatch slugs env))
           = Some (miss_views (VIEW_KV env) (kon_blog_db env) slugs)"
    and "VIEW_KV (snd (getViewsBatch slugs env))
           = writeManyToKV (VIEW_KV env)
               (getMany (filter (\<lambda>s. getFromKV (VIEW_KV env) s = None) slugs)
                  (kon_blog_db env))
               (filter (\<lambda>s. getFromKV (VIEW_KV env) s = None) slugs)"
    and "kon_blog_db (snd (getViewsBatch slugs env)) = kon_blog_db env"
proof -
  let ?kv = "VIEW_KV env" and ?db = "kon_blog_db env"
  let ?M = "filter (\<lambda>s. getFromKV ?kv s = None) slugs"
  let ?F = "\<lambda>s. if s \<in> set slugs \<and> s \<noteq> ''__proto__'' then map_option Num (getFromKV ?kv s)
                 else None"
  let ?D = "if length ?M > 0 then getMany ?M ?db else Map.empty"
  let ?g = "\<lambda>slug. case js_get ?F slug of
                      Some v \<Rightarrow> v
                    | None \<Rightarrow> (case js_get ?D slug of Some v \<Rightarrow> v | None \<Rightarrow> Num 0)"
  have gm: "getManyFromKV ?kv slugs = (?F, ?M)"
    using assms(1) by (simp add: getManyFromKV_miss getEachFromKV_eq)
  have gv: "getViewsBatch slugs env =
              (Batch (json_numbers (foldl (\<lambda>r slug. js_set r slug (?g slug)) ?F slugs))
                 (if length ?M = 0 then from_kv else from_mixed),
               env\<lparr>VIEW_KV := if length ?M > 0 then writeManyToKV ?kv ?D ?M else ?kv\<rparr>)"
    using assms(2,3) by (simp add: getViewsBatch_def gm Let_def)
  have D: "?D = (\<lambda>s. if s \<in> set ?M \<and> s \<noteq> ''__proto__''
                      then map_option (\<lambda>row. Num (view_count row)) (page_views ?db s)
                      else None)"
    by (auto simp: getMany_eq fun_eq_iff filter_empty_conv)
  have "json_numbers (foldl (\<lambda>r slug. js_set r slug (?g slug)) ?F slugs)
          = miss_views ?kv ?db slugs"
    unfolding result_fold D
    by (auto simp: json_numbers_def miss_views_def js_get_def get_def fun_eq_iff proto_member
             split: option.splits js_value.splits)
  then show "views_of (fst (getViewsBatch slugs env)) = Some (miss_views ?kv ?db slugs)"
    by (simp add: gv)
  show "VIEW_KV (snd (getViewsBatch slugs env)) = writeManyToKV ?kv (getMany ?M ?db) ?M"
    by (auto simp: gv writeManyToKV_def filter_empty_conv)
  show "kon_blog_db (snd (getViewsBatch slugs env)) = ?db"
    by (simp add: gv)
qed

text \<open>A request that the aggregate entry serves: the answer is the entry, whole and
  nothing else, and nothing is written.\<close>

lemma getViewsBatch_hit:
  assumes "hit (VIEW_KV env) slugs" "slugs \<noteq> []" "length slugs \<le> 100"
  shows "getViewsBatch slugs env
           = (Batch (the (batch (VIEW_KV env) (cacheKey slugs))) from_kv, env)"
proof -
  from assms(1) obtain entry where e: "batch (VIEW_KV env) (cacheKey slugs) = Some entry"
    and all: "list_all (\<lambda>slug. js_get (parsed_object entry) slug \<noteq> None) slugs"
    by (auto simp: hit_def split: option.splits)
  let ?g = "\<lambda>slug. case js_get (parsed_object entry) slug of
                      Some v \<Rightarrow> v
                    | None \<Rightarrow> (case js_get Map.empty slug of Some v \<Rightarrow> v | None \<Rightarrow> Num 0)"
  have gv: "getViewsBatch slugs env =
              (Batch (json_numbers (foldl (\<lambda>r slug. js_set r slug (?g slug))
                                      (parsed_object entry) slugs)) from_kv, env)"
    using assms(2,3) by (simp add: getViewsBatch_def getManyFromKV_hit[OF assms(1)] e Let_def)
  have "json_numbers (foldl (\<lambda>r slug. js_set r slug (?g slug)) (parsed_object entry) slugs)
          = entry"
    unfolding result_fold using all
    by (auto simp: json_numbers_def parsed_object_def js_get_def fun_eq_iff list_all_iff
             split: option.splits js_value.splits if_splits)
  then show ?thesis by (simp add: gv e)
qed

text \<open>
  What holds of the slugs that are not names of members of \<open>Object.prototype\<close>: a request
  for them and a request for the same slugs in another order right behind it answer the
  same views, and an aggregate entry that lacks one of them is not served.
\<close>

lemma sort_perm: "mset xs = mset ys \<Longrightarrow> sort xs = sort (ys :: string list)"
  by (metis properties_for_sort sorted_sort mset_sort)

lemma hit_perm:
  assumes "mset slugs' = mset slugs"
  shows "hit kv slugs' = hit kv slugs"
proof -
  have "set slugs' = set slugs" using assms by (rule mset_eq_setD)
  moreover have "cacheKey slugs' = cacheKey slugs"
    using sort_perm[OF assms] by (simp add: cacheKey_def)
  ultimately show ?thesis by (auto simp: hit_def list_all_iff split: option.splits)
qed

lemma hit_writeMany: "hit (writeManyToKV kv views ss) slugs = hit kv slugs"
  by (simp add: hit_def reachable_writeMany batch_writeMany)

lemma miss_views_writeback:
  assumes "set slugs \<inter> set Object_prototype = {}"
  shows "miss_views (writeManyToKV kv
           (getMany (filter (\<lambda>s. getFromKV kv s = None) slugs) db)
           (filter (\<lambda>s. getFromKV kv s = None) slugs)) db slugs
         = miss_views kv db slugs"
proof
  fix s
  show "miss_views (writeManyToKV kv
           (getMany (filter (\<lambda>s. getFromKV kv s = None) slugs) db)
           (filter (\<lambda>s. getFromKV kv s = None) slugs)) db slugs s
         = miss_views kv db slugs s"
  proof (cases "s \<in> set slugs")
    case False
    then show ?thesis by (simp add: miss_views_def)
  next
    case True
    with assms have p: "s \<notin> set Object_prototype" by auto
    then have q: "s \<noteq> ''__proto__''" using proto_member by auto
    show ?thesis
      using True p q
      by (auto simp: miss_views_def getFromKV_writeMany getMany_eq get_def
               split: option.splits)
  qed
qed

lemma miss_views_perm:
  "set slugs' = set slugs \<Longrightarrow> miss_views kv db slugs' = miss_views kv db slugs"
  by (simp add: miss_views_def)

lemma miss_views_batch_upd:
  "miss_views (kv\<lparr>batch := b\<rparr>) db slugs = miss_views kv db slugs"
  by (auto simp: miss_views_def getFromKV_def fun_eq_iff)

lemma order_independent_plain:
  assumes "mset slugs' = mset slugs"
      and "set slugs \<inter> set Object_prototype = {}"
  shows "views_of (fst (getViewsBatch slugs' (snd (getViewsBatch slugs env))))
           = views_of (fst (getViewsBatch slugs env))"
proof -
  have set_eq: "set slugs' = set slugs" using assms(1) by (rule mset_eq_setD)
  have len_eq: "length slugs' = length slugs" using assms(1) by (rule mset_eq_length)
  show ?thesis
  proof (cases "slugs = [] \<or> length slugs > 100")
    case True
    then have "getViewsBatch slugs env = (Failure 400, env)"
      by (auto simp: getViewsBatch_def)
    moreover from True len_eq have "getViewsBatch slugs' env = (Failure 400, env)"
      by (auto simp: getViewsBatch_def)
    ultimately show ?thesis by simp
  next
    case False
    then have ok: "slugs \<noteq> []" "length slugs \<le> 100" by auto
    with len_eq have ok': "slugs' \<noteq> []" "length slugs' \<le> 100" by auto
    show ?thesis
    proof (cases "hit (VIEW_KV env) slugs")
      case True
      then have h': "hit (VIEW_KV env) slugs'" by (simp add: hit_perm[OF assms(1)])
      have "cacheKey slugs' = cacheKey slugs"
        using sort_perm[OF assms(1)] by (simp add: cacheKey_def)
      then show ?thesis
        using getViewsBatch_hit[OF True ok] getViewsBatch_hit[OF h' ok'] by simp
    next
      case False
      let ?env' = "snd (getViewsBatch slugs env)"
      note m = getViewsBatch_miss[OF False ok]
      have nh: "\<not> hit (VIEW_KV ?env') slugs'"
        using False by (simp add: m(2) hit_writeMany hit_perm[OF assms(1)])
      have "views_of (fst (getViewsBatch slugs' ?env'))
              = Some (miss_views (VIEW_KV ?env') (kon_blog_db ?env') slugs')"
        by (rule getViewsBatch_miss(1)[OF nh ok'])
      also have "\<dots> = Some (miss_views (VIEW_KV env) (kon_blog_db env) slugs)"
        by (simp add: m(2) m(3) miss_views_perm[OF set_eq] miss_views_writeback[OF assms(2)])
      finally show ?thesis using m(1) by simp
    qed
  qed
qed

lemma hasAll_plain:
  assumes "set slugs \<inter> set Object_prototype = {}"
  shows "list_all (\<lambda>slug. js_get (parsed_object entry) slug \<noteq> None) slugs
           = list_all (\<lambda>slug. entry slug \<noteq> None) slugs"
  using assms by (auto simp: list_all_iff js_get_def parsed_object_def split: option.splits)

lemma aggregate_plain:
  assumes "slugs \<noteq> []" "length slugs \<le> 100"
      and "set slugs \<inter> set Object_prototype = {}"
      and "reachable (VIEW_KV env)"
      and "batch (VIEW_KV env) (cacheKey slugs) = Some entry"
  shows "list_all (\<lambda>slug. entry slug \<noteq> None) slugs
           \<Longrightarrow> fst (getViewsBatch slugs env) = Batch entry from_kv"
    and "\<not> list_all (\<lambda>slug. entry slug \<noteq> None) slugs
           \<Longrightarrow> getManyFromKV (VIEW_KV env) slugs = getEachFromKV (VIEW_KV env) slugs
               \<and> views_of (fst (getViewsBatch slugs env))
                   = views_of (fst (getViewsBatch slugs (drop_aggregate slugs env)))"
proof -
  assume "list_all (\<lambda>slug. entry slug \<noteq> None) slugs"
  then have h: "hit (VIEW_KV env) slugs"
    unfolding hit_def hasAll_plain[OF assms(3)] using assms(4,5) by simp
  show "fst (getViewsBatch slugs env) = Batch entry from_kv"
    using getViewsBatch_hit[OF h assms(1,2)] assms(5) by simp
next
  assume "\<not> list_all (\<lambda>slug. entry slug \<noteq> None) slugs"
  then have h: "\<not> hit (VIEW_KV env) slugs"
    unfolding hit_def hasAll_plain[OF assms(3)] using assms(4,5) by simp
  have h': "\<not> hit (VIEW_KV (drop_aggregate slugs env)) slugs"
    by (simp add: hit_def drop_aggregate_def)
  show "getManyFromKV (VIEW_KV env) slugs = getEachFromKV (VIEW_KV env) slugs
        \<and> views_of (fst (getViewsBatch slugs env))
            = views_of (fst (getViewsBatch slugs (drop_aggregate slugs env)))"
    using getManyFromKV_miss[OF h]
      getViewsBatch_miss(1)[OF h assms(1,2)] getViewsBatch_miss(1)[OF h' assms(1,2)]
    by (simp add: drop_aggregate_def miss_views_batch_upd)
qed

lemma getViewsBatch_batch_unchanged:
  "batch (VIEW_KV (snd (getViewsBatch slugs env))) = batch (VIEW_KV env)"
  by (auto simp: getViewsBatch_def Let_def batch_writeMany split: prod.splits)

text \<open>
  C6 fails on the code. With 3 views of \<open>constructor\<close> in the database, none of \<open>a\<close>, and
  an empty cache, the request for \<open>constructor\<close> and \<open>a\<close> answers no view of
  \<open>constructor\<close> and 0 for \<open>a\<close>: \<open>found[slug]\<close> is the inherited member of the empty object
  \<open>found\<close>, so the count 3 that the database gave is not looked at, and the member, a
  function, is left out of the JSON text. The request writes the count to the single key
  of \<open>constructor\<close>; the request for \<open>a\<close> and \<open>constructor\<close> right behind it finds the
  key and answers 3 and 0. Both lists have the aggregate key of the sorted, comma-joined
  list.
\<close>

theorem getViewsBatch_constructor_reordered:
  "cacheKey [''constructor'', ''a''] = ''views:batch:v1:a,constructor''
   \<and> cacheKey [''a'', ''constructor''] = ''views:batch:v1:a,constructor''
   \<and> map_option (\<lambda>v. [v ''constructor'', v ''a''])
        (views_of (fst (getViewsBatch [''constructor'', ''a''] three_views)))
     = Some [None, Some 0]
   \<and> map_option (\<lambda>v. [v ''constructor'', v ''a''])
        (views_of (fst (getViewsBatch [''a'', ''constructor'']
                         (snd (getViewsBatch [''constructor'', ''a''] three_views)))))
     = Some [Some 3, Some 0]"
proof -
  let ?env' = "snd (getViewsBatch [''constructor'', ''a''] three_views)"
  have k1: "cacheKey [''constructor'', ''a''] = ''views:batch:v1:a,constructor''"
    by (simp add: cacheKey_def KV_BATCH_PREFIX_def)
  have k2: "cacheKey [''a'', ''constructor''] = ''views:batch:v1:a,constructor''"
    by (simp add: cacheKey_def KV_BATCH_PREFIX_def)
  have l: "[''constructor'', ''a''] \<noteq> []" "length [''constructor'', ''a''] \<le> 100"
    and l': "[''a'', ''constructor''] \<noteq> []" "length [''a'', ''constructor''] \<le> 100"
    by simp_all
  have c: "''constructor'' \<in> set Object_prototype" and a: "''a'' \<notin> set Object_prototype"
    by (simp_all add: Object_prototype_def)
  have none: "getFromKV (VIEW_KV three_views) s = None" for s
    by (simp add: getFromKV_def three_views_def empty_env_def)
  have r: "reachable (VIEW_KV three_views)"
    by (simp add: three_views_def empty_env_def)
  have db: "get ''a'' (kon_blog_db three_views) = 0"
    "page_views (kon_blog_db three_views) ''constructor''
       = Some \<lparr>view_count = 3, pv_updated_at = ''2026-02-13 09:00:00''\<rparr>"
    by (simp_all add: get_def three_views_def empty_env_def)
  have nh: "\<not> hit (VIEW_KV three_views) [''constructor'', ''a'']"
    by (simp add: hit_def three_views_def empty_env_def)
  note m = getViewsBatch_miss[OF nh l]
  have 1: "map_option (\<lambda>v. [v ''constructor'', v ''a''])
             (views_of (fst (getViewsBatch [''constructor'', ''a''] three_views)))
           = Some [None, Some 0]"
    by (simp add: m(1) miss_views_def none c a db)
  have kc: "getFromKV (VIEW_KV ?env') ''constructor'' = Some 3"
    by (simp add: m(2) getFromKV_writeMany none getMany_eq r db)
  have ka: "getFromKV (VIEW_KV ?env') ''a'' = None"
    by (simp add: m(2) getFromKV_writeMany none getMany_eq r)
       (simp add: three_views_def empty_env_def getFromKV_def)
  have nh': "\<not> hit (VIEW_KV ?env') [''a'', ''constructor'']"
    using getViewsBatch_batch_unchanged[of "[''constructor'', ''a'']" three_views]
    by (simp add: hit_def three_views_def empty_env_def)
  have 2: "map_option (\<lambda>v. [v ''constructor'', v ''a''])
             (views_of (fst (getViewsBatch [''a'', ''constructor''] ?env')))
           = Some [Some 3, Some 0]"
    by (simp add: getViewsBatch_miss(1)[OF nh' l'] miss_views_def kc ka a m(3) db)
  from k1 k2 1 2 show ?thesis by simp
qed


text \<open>
  C8 fails on the code. With 7 views of \<open>a\<close> in the database, none of \<open>b\<close>, and an empty
  cache, the request for \<open>a\<close> and \<open>b\<close> misses the aggregate entry, reads the database
  and answers 7 and 0; behind it the cache holds the single key of \<open>a\<close> and nothing else:
  no aggregate entry under the key of \<open>a,b\<close>, and no single key for \<open>b\<close>. The next request
  for the same slugs misses the aggregate entry again.
\<close>

theorem getViewsBatch_aggregate_unwritten:
  "map_option (\<lambda>v. [v ''a'', v ''b'']) (views_of (fst (getViewsBatch [''a'', ''b''] seven_views)))
     = Some [Some 7, Some 0]
   \<and> batch (VIEW_KV (snd (getViewsBatch [''a'', ''b''] seven_views))) (cacheKey [''a'', ''b''])
     = None
   \<and> single (VIEW_KV (snd (getViewsBatch [''a'', ''b''] seven_views))) (KV_PREFIX @ ''a'')
     = Some 7
   \<and> single (VIEW_KV (snd (getViewsBatch [''a'', ''b''] seven_views))) (KV_PREFIX @ ''b'')
     = None
   \<and> hit (VIEW_KV (snd (getViewsBatch [''a'', ''b''] seven_views))) [''a'', ''b''] = False"
proof -
  have l: "[''a'', ''b''] \<noteq> []" "length [''a'', ''b''] \<le> 100" by simp_all
  have nh: "\<not> hit (VIEW_KV seven_views) [''a'', ''b'']"
    by (simp add: hit_def seven_views_def empty_env_def)
  note m = getViewsBatch_miss[OF nh l]
  have p: "''a'' \<notin> set Object_prototype" "''b'' \<notin> set Object_prototype"
    by (simp_all add: Object_prototype_def)
  have none: "getFromKV (VIEW_KV seven_views) s = None" for s
    by (simp add: getFromKV_def seven_views_def empty_env_def)
  have kv: "VIEW_KV (snd (getViewsBatch [''a'', ''b''] seven_views))
              = (VIEW_KV seven_views)\<lparr>single := [KV_PREFIX @ ''a'' \<mapsto> 7]\<rparr>"
    by (simp add: m(2) none)
       (simp add: writeManyToKV_def writeToKV_def getMany_def js_set_def seven_views_def
          empty_env_def)
  have 1: "map_option (\<lambda>v. [v ''a'', v ''b''])
             (views_of (fst (getViewsBatch [''a'', ''b''] seven_views)))
           = Some [Some 7, Some 0]"
    by (simp add: m(1) miss_views_def none p) (simp add: get_def seven_views_def empty_env_def)
  have 2: "batch (VIEW_KV (snd (getViewsBatch [''a'', ''b''] seven_views)))
             (cacheKey [''a'', ''b'']) = None"
    by (simp add: getViewsBatch_batch_unchanged) (simp add: seven_views_def empty_env_def)
  have 3: "single (VIEW_KV (snd (getViewsBatch [''a'', ''b''] seven_views))) (KV_PREFIX @ ''a'')
             = Some 7"
    by (simp add: kv)
  have 4: "single (VIEW_KV (snd (getViewsBatch [''a'', ''b''] seven_views))) (KV_PREFIX @ ''b'')
             = None"
    by (simp add: kv)
  have 5: "hit (VIEW_KV (snd (getViewsBatch [''a'', ''b''] seven_views))) [''a'', ''b''] = False"
    using 2 by (simp add: hit_def)
  from 1 2 3 4 5 show ?thesis by simp
qed

section \<open>Properties of the thread materializer\<close>

text \<open>The test of the second loop: \<open>parent_id\<close> is true and is a key of the Map.\<close>

lemma find_snoc:
  "find P (xs @ [x])
     = (case find P xs of Some y \<Rightarrow> Some y | None \<Rightarrow> if P x then Some x else None)"
  by (induction xs) auto

lemma buildMap_lookup_gen:
  "foldl (\<lambda>m c. m(c_id c \<mapsto> \<lparr>node_comment = c, replies = []\<rparr>)) m0 cs p
     = (case find (\<lambda>c. c_id c = p) (rev cs) of
          None \<Rightarrow> m0 p
        | Some c \<Rightarrow> Some \<lparr>node_comment = c, replies = []\<rparr>)"
  by (induction cs arbitrary: m0) (auto simp: find_snoc split: option.splits)

lemma buildMap_lookup:
  "buildMap cs p = map_option (\<lambda>c. \<lparr>node_comment = c, replies = []\<rparr>)
                     (find (\<lambda>c. c_id c = p) (rev cs))"
  by (simp add: buildMap_def buildMap_lookup_gen split: option.splits)

lemma buildMap_dom: "dom (buildMap cs) = c_id ` set cs"
  by (auto simp: dom_def buildMap_lookup find_None_iff image_iff)

lemma buildMap_replies: "buildMap cs p = Some node \<Longrightarrow> replies node = []"
  by (auto simp: buildMap_lookup)

lemma attach_step:
  "attach (roots, m) c =
     (if truthy_parent (dom m) c then roots else roots @ [c_id c],
      \<lambda>p. map_option (\<lambda>node. if truthy_parent (dom m) c \<and> parent_id c = Some p
                              then node\<lparr>replies := replies node @ [c_id c]\<rparr>
                              else node) (m p))"
  by (auto simp: attach_def truthy_parent_def fun_eq_iff option.map_ident split: option.splits)

lemma dom_map_option: "dom (\<lambda>p. map_option (f p) (m p)) = dom m"
  by (auto simp: dom_def)

lemma attach_run:
  "foldl attach (roots, m) cs =
     (roots @ map c_id (filter (\<lambda>c. \<not> truthy_parent (dom m) c) cs),
      \<lambda>p. map_option (\<lambda>node. node\<lparr>replies := replies node
               @ map c_id (filter (\<lambda>c. truthy_parent (dom m) c \<and> parent_id c = Some p) cs)\<rparr>)
             (m p))"
proof (induction cs arbitrary: roots m)
  case Nil
  then show ?case by (simp add: fun_eq_iff option.map_ident)
next
  case (Cons c cs)
  show ?case
    by (simp add: attach_step Cons.IH dom_map_option)
       (auto simp: fun_eq_iff option.map_comp o_def intro!: option.map_cong)
qed

lemma nestComments_roots:
  "fst (nestComments cs)
     = map c_id (filter (\<lambda>c. \<not> truthy_parent (c_id ` set cs) c) cs)"
  by (simp add: nestComments_def attach_run buildMap_dom)

lemma nestComments_replies:
  assumes "snd (nestComments cs) p = Some node"
  shows "replies node
           = map c_id (filter (\<lambda>c. truthy_parent (c_id ` set cs) c \<and> parent_id c = Some p) cs)"
proof -
  from assms obtain n0 where n0: "buildMap cs p = Some n0"
    and node: "node = n0\<lparr>replies := replies n0
               @ map c_id (filter (\<lambda>c. truthy_parent (dom (buildMap cs)) c
                                        \<and> parent_id c = Some p) cs)\<rparr>"
    by (auto simp: nestComments_def attach_run)
  from n0 have "replies n0 = []" by (rule buildMap_replies)
  with node show ?thesis by (simp add: buildMap_dom)
qed

lemma nestComments_dom: "dom (snd (nestComments cs)) = c_id ` set cs"
  by (simp add: nestComments_def attach_run dom_map_option buildMap_dom)

lemma truthy_parent_positive:
  assumes "\<forall>c \<in> set cs. 0 < c_id c"
  shows "truthy_parent (c_id ` set cs) c = resolves_in cs c"
  using assms by (auto simp: truthy_parent_def resolves_in_def split: option.splits)

text \<open>
  C9. The ids of the comments are keys that AUTOINCREMENT gave out, hence positive. For
  every such list of comments, the roots that \<open>nestComments\<close> returns are the comments
  whose \<open>parent_id\<close> is NULL or is not the \<open>id\<close> of a comment of the list, in the order of
  the list; every comment of the list has a node; and the replies of a node are the
  comments whose \<open>parent_id\<close> is the node's \<open>id\<close>, in the order of the list. For the three
  comments of the specification, whatever their other columns, the roots are 1 and 3 in
  that order, 1 has the single reply 2, and 2 and 3 have none.
\<close>

theorem nestComments_roots_and_replies:
  "((\<forall>c \<in> set cs. 0 < c_id c) \<longrightarrow>
      fst (nestComments cs) = map c_id (filter (\<lambda>c. \<not> resolves_in cs c) cs)
      \<and> dom (snd (nestComments cs)) = c_id ` set cs
      \<and> (\<forall>p node. snd (nestComments cs) p = Some node \<longrightarrow>
            replies node = map c_id (filter (\<lambda>c. parent_id c = Some p) cs)))
   \<and> fst (nestComments [c\<lparr>c_id := 1, parent_id := None\<rparr>,
                         c\<lparr>c_id := 2, parent_id := Some 1\<rparr>,
                         c\<lparr>c_id := 3, parent_id := Some 99\<rparr>]) = [1, 3]
   \<and> trees_of 3 (nestComments [c\<lparr>c_id := 1, parent_id := None\<rparr>,
                               c\<lparr>c_id := 2, parent_id := Some 1\<rparr>,
                               c\<lparr>c_id := 3, parent_id := Some 99\<rparr>])
       = Some [Node (c\<lparr>c_id := 1, parent_id := None\<rparr>)
                 [Node (c\<lparr>c_id := 2, parent_id := Some 1\<rparr>) []],
               Node (c\<lparr>c_id := 3, parent_id := Some 99\<rparr>) []]"
proof (intro conjI impI allI)
  assume pos: "\<forall>c \<in> set cs. 0 < c_id c"
  show "fst (nestComments cs) = map c_id (filter (\<lambda>c. \<not> resolves_in cs c) cs)"
    by (simp add: nestComments_roots truthy_parent_positive[OF pos])
  show "dom (snd (nestComments cs)) = c_id ` set cs"
    by (rule nestComments_dom)
  fix p node
  assume n: "snd (nestComments cs) p = Some node"
  then have "p \<in> c_id ` set cs" using nestComments_dom[of cs] by auto
  then have "filter (\<lambda>c. resolves_in cs c \<and> parent_id c = Some p) cs
               = filter (\<lambda>c. parent_id c = Some p) cs"
    by (intro filter_cong) (auto simp: resolves_in_def)
  then show "replies node = map c_id (filter (\<lambda>c. parent_id c = Some p) cs)"
    by (simp add: nestComments_replies[OF n] truthy_parent_positive[OF pos])
next
  show "fst (nestComments [c\<lparr>c_id := 1, parent_id := None\<rparr>,
                         c\<lparr>c_id := 2, parent_id := Some 1\<rparr>,
                         c\<lparr>c_id := 3, parent_id := Some 99\<rparr>]) = [1, 3]"
    by (simp add: nestComments_def buildMap_def attach_def)
  show "trees_of 3 (nestComments [c\<lparr>c_id := 1, parent_id := None\<rparr>,
                               c\<lparr>c_id := 2, parent_id := Some 1\<rparr>,
                               c\<lparr>c_id := 3, parent_id := Some 99\<rparr>])
       = Some [Node (c\<lparr>c_id := 1, parent_id := None\<rparr>)
                 [Node (c\<lparr>c_id := 2, parent_id := Some 1\<rparr>) []],
               Node (c\<lparr>c_id := 3, parent_id := Some 99\<rparr>) []]"
    by (simp add: trees_of_def nestComments_def buildMap_def attach_def eval_nat_numeral)
qed

text \<open>On the sample thread: the roots are 5 and 9, whose parent 4 is not there; 7 is the
  reply of 5 and 8 the reply of 7.\<close>

theorem nestComments_roots_and_replies_witness:
  "fst (nestComments sample_thread) = [5, 9]
   \<and> map_option replies (snd (nestComments sample_thread) 5) = Some [7]
   \<and> map_option replies (snd (nestComments sample_thread) 7) = Some [8]
   \<and> map_option replies (snd (nestComments sample_thread) 9) = Some []"
proof -
  have pos: "\<forall>c \<in> set sample_thread. 0 < c_id c"
    by (simp add: sample_thread_def)
  note t = nestComments_roots_and_replies [of sample_thread sample_comment]
  from t pos have r: "fst (nestComments sample_thread)
                        = map c_id (filter (\<lambda>c. \<not> resolves_in sample_thread c) sample_thread)"
    by blast
  from t pos have d: "dom (snd (nestComments sample_thread)) = c_id ` set sample_thread"
    by blast
  from t pos have c: "\<And>p node. snd (nestComments sample_thread) p = Some node \<Longrightarrow>
            replies node = map c_id (filter (\<lambda>c. parent_id c = Some p) sample_thread)"
    by blast
  have roots: "fst (nestComments sample_thread) = [5, 9]"
    by (simp add: r) (simp add: sample_thread_def sample_comment_def resolves_in_def)
  have rep: "map_option replies (snd (nestComments sample_thread) p)
               = Some (map c_id (filter (\<lambda>c. parent_id c = Some p) sample_thread))"
    if "p \<in> c_id ` set sample_thread" for p
  proof -
    from that d obtain node where n: "snd (nestComments sample_thread) p = Some node"
      by (auto simp: dom_def)
    with c[OF n] show ?thesis by simp
  qed
  have "map_option replies (snd (nestComments sample_thread) 5) = Some [7]"
    by (subst rep) (simp_all add: sample_thread_def sample_comment_def)
  moreover have "map_option replies (snd (nestComments sample_thread) 7) = Some [8]"
    by (subst rep) (simp_all add: sample_thread_def sample_comment_def)
  moreover have "map_option replies (snd (nestComments sample_thread) 9) = Some []"
    by (subst rep) (simp_all add: sample_thread_def sample_comment_def)
  ultimately show ?thesis using roots by simp
qed

end
